theory Spec2Isabelle
  imports Main "HOL-Library.Sublist"
begin

section \<open>The template_tree action plugin\<close>

text \<open>
  A shallow embedding of \<^verbatim>\<open>src/template_tree.py\<close> (class \<^verbatim>\<open>ActionModule\<close>).
  The plugin merges source roots into a list of local entries, maps them to destination
  paths, lists the destination, computes the entries to delete and then applies deletes
  and creates through Ansible modules.

  The Python standard library functions the plugin calls (\<^verbatim>\<open>posixpath\<close>,
  \<^verbatim>\<open>pathlib.PurePosixPath\<close>) are transcribed from CPython. The Ansible collaborators
  (the loader, the filetree and template lookups, the find, file and copy modules) are
  not part of the repository: they are fields of the record \<open>env\<close>, and every theorem
  holds for all of them.
\<close>

subsection \<open>Python exceptions\<close>

datatype error =
    AnsibleError string
  | ValueError
  | KeyError string
  | UnboundLocalError

subsection \<open>posixpath\<close>

text \<open>\<^verbatim>\<open>os.path.sep\<close> on POSIX.\<close>

definition sep :: char where
  "sep = CHR ''/''"

text \<open>\<^verbatim>\<open>s.startswith(t)\<close> and \<^verbatim>\<open>s.endswith(t)\<close>.\<close>

definition startswith :: "string \<Rightarrow> string \<Rightarrow> bool" where
  "startswith s t = (take (length t) s = t)"

definition endswith :: "string \<Rightarrow> string \<Rightarrow> bool" where
  "endswith s t = (length t \<le> length s \<and> drop (length s - length t) s = t)"

text \<open>\<^verbatim>\<open>s.split('/')\<close>: the pieces between separators, empty pieces included.\<close>

fun split_sep :: "string \<Rightarrow> string list" where
  "split_sep [] = [[]]"
| "split_sep (c # cs) =
     (if c = CHR ''/'' then [] # split_sep cs
      else (case split_sep cs of [] \<Rightarrow> [[c]] | w # ws \<Rightarrow> (c # w) # ws))"

text \<open>\<^verbatim>\<open>'/'.join(comps)\<close>.\<close>

fun join_sep :: "string list \<Rightarrow> string" where
  "join_sep [] = []"
| "join_sep [c] = c"
| "join_sep (c # d # cs) = c @ CHR ''/'' # join_sep (d # cs)"

text \<open>
  \<^verbatim>\<open>posixpath.basename(p)\<close>: \<^verbatim>\<open>i = p.rfind('/') + 1; return p[i:]\<close>.
\<close>

definition basename :: "string \<Rightarrow> string" where
  "basename p = rev (takeWhile (\<lambda>c. c \<noteq> CHR ''/'') (rev p))"

text \<open>
  \<^verbatim>\<open>posixpath.dirname(p)\<close>: \<^verbatim>\<open>head = p[:i]\<close>, and when \<^verbatim>\<open>head\<close> is not only
  separators its trailing separators are stripped.
\<close>

definition dirname :: "string \<Rightarrow> string" where
  "dirname p =
     (let head = rev (dropWhile (\<lambda>c. c \<noteq> CHR ''/'') (rev p))
      in if head \<noteq> [] \<and> head \<noteq> replicate (length head) (CHR ''/'')
         then rev (dropWhile (\<lambda>c. c = CHR ''/'') (rev head))
         else head)"

text \<open>
  \<^verbatim>\<open>posixpath.join(a, b)\<close> with one joined component: an absolute \<^verbatim>\<open>b\<close> replaces
  \<^verbatim>\<open>a\<close>; otherwise \<^verbatim>\<open>b\<close> is appended, with a separator unless \<^verbatim>\<open>a\<close> is empty or already
  ends with one.
\<close>

definition join :: "string \<Rightarrow> string \<Rightarrow> string" where
  "join a b =
     (if startswith b ''/'' then b
      else if a = [] \<or> endswith a ''/'' then a @ b
      else a @ ''/'' @ b)"

text \<open>
  \<^verbatim>\<open>posixpath.normpath(path)\<close>. The loop body over the components keeps a component,
  drops an empty one or a dot, and lets \<^verbatim>\<open>..\<close> remove the component before it (at the
  start of a relative path, or after another \<^verbatim>\<open>..\<close>, it is kept).
\<close>

definition normpath_step :: "nat \<Rightarrow> string list \<Rightarrow> string \<Rightarrow> string list" where
  "normpath_step initial_slashes new_comps c =
     (if c = [] \<or> c = ''.'' then new_comps
      else if c \<noteq> ''..'' \<or> (initial_slashes = 0 \<and> new_comps = [])
              \<or> (new_comps \<noteq> [] \<and> last new_comps = ''..'')
        then new_comps @ [c]
      else if new_comps \<noteq> [] then butlast new_comps
      else new_comps)"

definition initial_slashes_of :: "string \<Rightarrow> nat" where
  "initial_slashes_of p =
     (if startswith p ''/''
      then (if startswith p ''//'' \<and> \<not> startswith p ''///'' then 2 else 1)
      else 0)"

definition normpath :: "string \<Rightarrow> string" where
  "normpath p =
     (if p = [] then ''.''
      else
        let initial_slashes = initial_slashes_of p;
            comps = foldl (normpath_step initial_slashes) [] (split_sep p);
            q = replicate initial_slashes (CHR ''/'') @ join_sep comps
        in if q = [] then ''.'' else q)"

subsection \<open>pathlib.PurePosixPath\<close>

text \<open>
  A pure path is its root (empty, one slash, or two slashes) and its parts; parsing drops
  empty components and dots. Two paths are equal when root and parts are.
\<close>

datatype purepath = Path (anchor: string) (parts: "string list")

definition PurePath :: "string \<Rightarrow> purepath" where
  "PurePath s =
     Path (replicate (initial_slashes_of s) (CHR ''/''))
          (filter (\<lambda>x. x \<noteq> [] \<and> x \<noteq> ''.'') (split_sep s))"

text \<open>\<^verbatim>\<open>str(p)\<close>.\<close>

definition str_path :: "purepath \<Rightarrow> string" where
  "str_path p =
     (if anchor p = [] \<and> parts p = [] then ''.'' else anchor p @ join_sep (parts p))"

definition is_absolute :: "purepath \<Rightarrow> bool" where
  "is_absolute p = (anchor p \<noteq> [])"

text \<open>
  \<^verbatim>\<open>p.relative_to(other)\<close>: the parts of \<^verbatim>\<open>p\<close> after those of \<^verbatim>\<open>other\<close>, as a
  relative path; \<^verbatim>\<open>ValueError\<close> when \<^verbatim>\<open>other\<close> (root and parts) is not a leading
  segment of \<^verbatim>\<open>p\<close>.
\<close>

definition relative_to :: "purepath \<Rightarrow> purepath \<Rightarrow> error + purepath" where
  "relative_to p other =
     (if anchor p = anchor other \<and> prefix (parts other) (parts p)
      then Inr (Path [] (drop (length (parts other)) (parts p)))
      else Inl ValueError)"

text \<open>
  \<^verbatim>\<open>p.is_relative_to(other)\<close>: whether \<^verbatim>\<open>relative_to\<close> returns.
\<close>

definition is_relative_to :: "purepath \<Rightarrow> purepath \<Rightarrow> bool" where
  "is_relative_to p other =
     (case relative_to p other of Inl e \<Rightarrow> False | Inr r \<Rightarrow> True)"

subsection \<open>Task arguments\<close>

text \<open>
  The values of \<^verbatim>\<open>self._task.args\<close>, a dictionary from argument names to YAML values.
\<close>

datatype argval =
    AStr string
  | AList "argval list"
  | ABool bool
  | AInt int
  | ANone

type_synonym task_args = "string \<rightharpoonup> argval"

text \<open>Python truthiness, for \<^verbatim>\<open>if exclusive:\<close>.\<close>

fun truthy :: "argval \<Rightarrow> bool" where
  "truthy (AStr s) = (s \<noteq> [])"
| "truthy (AList l) = (l \<noteq> [])"
| "truthy (ABool b) = b"
| "truthy (AInt n) = (n \<noteq> 0)"
| "truthy ANone = False"

text \<open>\<^verbatim>\<open>args.get(name, default)\<close>.\<close>

definition get_arg :: "task_args \<Rightarrow> string \<Rightarrow> argval \<Rightarrow> argval" where
  "get_arg args name dflt = (case args name of None \<Rightarrow> dflt | Some v \<Rightarrow> v)"

text \<open>
  \<^verbatim>\<open>PurePath(v)\<close> on an argument value: only a string is a valid path value, any other
  value raises \<^verbatim>\<open>TypeError\<close> (here \<open>None\<close>).
\<close>

fun path_of_argval :: "argval \<Rightarrow> purepath option" where
  "path_of_argval (AStr s) = Some (PurePath s)"
| "path_of_argval v = None"

definition quoted :: "string \<Rightarrow> string" where
  "quoted s = [CHR 0x27] @ s @ [CHR 0x27]"

text \<open>
  \<^verbatim>\<open>_parse_path_list(argname)\<close>: a value that is not a list is wrapped in one; every
  element is turned into a \<^verbatim>\<open>PurePath\<close>, and any failure there is re-raised as an
  \<^verbatim>\<open>AnsibleError\<close>.
\<close>

definition parse_path_list :: "task_args \<Rightarrow> string \<Rightarrow> error + purepath list" where
  "parse_path_list args argname =
     (let paths0 = get_arg args argname (AList []);
          paths = (case paths0 of AList l \<Rightarrow> l | v \<Rightarrow> [v]);
          is_list = (case paths0 of AList l \<Rightarrow> True | v \<Rightarrow> False)
      in case those (map path_of_argval paths) of
           Some ps \<Rightarrow> Inr ps
         | None \<Rightarrow>
             if is_list
             then Inl (AnsibleError (''Argument '' @ quoted argname
                         @ '' contains one or more values of an invalid type''))
             else Inl (AnsibleError (''Argument '' @ quoted argname
                         @ '' is of an invalid type'')))"

subsection \<open>Entries\<close>

text \<open>
  A local entry is the dictionary with the keys \<^verbatim>\<open>root\<close>, \<^verbatim>\<open>path\<close>, \<^verbatim>\<open>state\<close> and
  \<^verbatim>\<open>src\<close> (only files have \<^verbatim>\<open>src\<close>). A planned entry is the dictionary built by
  \<^verbatim>\<open>_get_entries_to_create\<close>; \<^verbatim>\<open>template\<close> and \<^verbatim>\<open>src\<close> exist for files only and
  \<^verbatim>\<open>content\<close> only after \<^verbatim>\<open>_set_file_contents\<close>. A remote entry is a result of the find
  module with its path turned into a \<^verbatim>\<open>PurePath\<close>.
\<close>

record local_entry =
  le_root :: string
  le_path :: string
  le_state :: string
  le_src :: "string option"

record planned =
  pe_dest :: string
  pe_state :: string
  pe_owner :: argval
  pe_group :: argval
  pe_src :: "string option"
  pe_template :: bool
  pe_mode :: argval
  pe_content :: "string option"

record found_file =
  ff_path :: string
  ff_isdir :: bool
  ff_isreg :: bool

record remote_entry =
  re_path :: purepath
  re_isdir :: bool
  re_isreg :: bool

subsection \<open>Module calls and their results\<close>

text \<open>
  The calls that change the destination: the file module with \<^verbatim>\<open>state=absent\<close>, the copy
  action and the file module with \<^verbatim>\<open>state=directory\<close>. A result is the dictionary a
  module returns, with the keys the plugin reads.
\<close>

datatype op =
    OpAbsent string
  | OpCopy planned
  | OpDirectory planned

datatype diffval = DiffOne string | DiffMany "string list"

record module_result =
  mr_failed :: bool
  mr_msg :: "string option"
  mr_state :: "string option"
  mr_changed :: "bool option"
  mr_diff :: "diffval option"

subsection \<open>The collaborators\<close>

text \<open>
  \<^item> \<open>path_dwim_relative\<close>: the loader's resolution of a source path below \<^verbatim>\<open>files\<close>;
  \<^item> \<open>is_regular_file\<close>: \<^verbatim>\<open>path.exists(p)\<close> and \<^verbatim>\<open>S_ISREG(os.lstat(p).st_mode)\<close>;
  \<^item> \<open>filetree\<close>: \<^verbatim>\<open>community.general.filetree\<close> run on a list of roots;
  \<^item> \<open>find_files\<close>: the \<^verbatim>\<open>files\<close> key of the find module's result (\<open>None\<close> when the
    result has no such key);
  \<^item> \<open>template_lookup\<close>: the template lookup on one file;
  \<^item> \<open>get_file_contents\<close>: the loader's file read (\<open>None\<close> when it raises
    \<^verbatim>\<open>AnsibleParserError\<close>);
  \<^item> \<open>execute\<close>: the result of a changing module call, which may depend on the calls made
    before it.
\<close>

record env =
  path_dwim_relative :: "string \<Rightarrow> string"
  is_regular_file :: "string \<Rightarrow> bool"
  filetree :: "string list \<Rightarrow> local_entry list"
  find_files :: "string \<Rightarrow> found_file list option"
  template_lookup :: "string \<Rightarrow> error + string"
  get_file_contents :: "string \<Rightarrow> string option"
  execute :: "op list \<Rightarrow> op \<Rightarrow> module_result"

subsection \<open>Source tree merger: \<^verbatim>\<open>_get_local_entries\<close>\<close>

text \<open>
  The loop over \<^verbatim>\<open>local_paths\<close> (lines 82 to 122). A regular file gives one file entry.
  Any other root gives the plugin's own directory entry with an empty relative path,
  followed by the filetree lookup run on \<^verbatim>\<open>local_paths\<close>, the whole list of roots. The
  first argument is that whole list, the second the roots still to visit.
\<close>

fun local_entries_loop :: "env \<Rightarrow> string list \<Rightarrow> string list \<Rightarrow> local_entry list" where
  "local_entries_loop E local_paths [] = []"
| "local_entries_loop E local_paths (local_path # rest) =
     (let found_path = path_dwim_relative E local_path
      in if is_regular_file E found_path
         then \<lparr>le_root = dirname found_path @ ''/'', le_path = basename found_path,
               le_state = ''file'', le_src = Some found_path\<rparr>
              # local_entries_loop E local_paths rest
         else \<lparr>le_root = local_path, le_path = [], le_state = ''directory'', le_src = None\<rparr>
              # filetree E local_paths @ local_entries_loop E local_paths rest)"

definition get_local_entries :: "env \<Rightarrow> string list \<Rightarrow> local_entry list" where
  "get_local_entries E local_paths = local_entries_loop E local_paths local_paths"

subsection \<open>Destination lister: \<^verbatim>\<open>_get_remote_entries\<close>\<close>

definition get_remote_entries :: "env \<Rightarrow> string \<Rightarrow> error + remote_entry list" where
  "get_remote_entries E remote_path =
     (case find_files E remote_path of
        None \<Rightarrow> Inl (KeyError ''files'')
      | Some files \<Rightarrow>
          Inr (map (\<lambda>f. \<lparr>re_path = PurePath (ff_path f @ ''/.''),
                         re_isdir = ff_isdir f, re_isreg = ff_isreg f\<rparr>) files))"

subsection \<open>Path mapper: \<^verbatim>\<open>_get_entries_to_create\<close>\<close>

definition TEMPLATE_EXTENSION :: string where
  "TEMPLATE_EXTENSION = ''.j2''"

text \<open>
  Lines 196 to 207: the destination path of a local entry before the template extension
  is looked at.
\<close>

definition destination_path :: "string \<Rightarrow> local_entry \<Rightarrow> string" where
  "destination_path remote_path local_entry =
     (let relative_path = normpath (le_path local_entry);
          destination_root =
            (if \<not> endswith (le_root local_entry) ''/''
             then join remote_path (basename (le_root local_entry))
             else remote_path)
      in normpath (join destination_root relative_path))"

text \<open>
  The loop body (lines 196 to 236): \<open>Inr (Some e)\<close> is a yielded entry, \<open>Inr None\<close> an
  entry skipped with a warning, \<open>Inl\<close> the \<^verbatim>\<open>KeyError\<close> of a file entry without
  \<^verbatim>\<open>src\<close>.
\<close>

definition entry_to_create ::
  "string \<Rightarrow> argval \<Rightarrow> argval \<Rightarrow> argval \<Rightarrow> argval \<Rightarrow> local_entry \<Rightarrow> error + planned option" where
  "entry_to_create remote_path owner grp file_mode directory_mode local_entry =
     (let dp = destination_path remote_path local_entry;
          entry = \<lparr>pe_dest = dp, pe_state = le_state local_entry, pe_owner = owner,
                   pe_group = grp, pe_src = None, pe_template = False, pe_mode = ANone,
                   pe_content = None\<rparr>
      in if pe_state entry = ''file'' then
           (case le_src local_entry of
              None \<Rightarrow> Inl (KeyError ''src'')
            | Some s \<Rightarrow>
                let entry = entry\<lparr>pe_src := Some s, pe_template := False, pe_mode := file_mode\<rparr>
                in if endswith dp TEMPLATE_EXTENSION
                   then Inr (Some (entry\<lparr>pe_dest := take (length dp - length TEMPLATE_EXTENSION) dp,
                                          pe_template := True\<rparr>))
                   else Inr (Some entry))
         else if pe_state entry = ''directory'' then
           Inr (Some (entry\<lparr>pe_mode := directory_mode\<rparr>))
         else Inr None)"

fun get_entries_to_create ::
  "local_entry list \<Rightarrow> string \<Rightarrow> argval \<Rightarrow> argval \<Rightarrow> argval \<Rightarrow> argval \<Rightarrow> error + planned list" where
  "get_entries_to_create [] remote_path owner grp file_mode directory_mode = Inr []"
| "get_entries_to_create (local_entry # rest) remote_path owner grp file_mode directory_mode =
     (case entry_to_create remote_path owner grp file_mode directory_mode local_entry of
        Inl e \<Rightarrow> Inl e
      | Inr None \<Rightarrow> get_entries_to_create rest remote_path owner grp file_mode directory_mode
      | Inr (Some entry) \<Rightarrow>
          (case get_entries_to_create rest remote_path owner grp file_mode directory_mode of
             Inl e \<Rightarrow> Inl e
           | Inr entries \<Rightarrow> Inr (entry # entries)))"

subsection \<open>Content resolver: \<^verbatim>\<open>_set_file_contents\<close>\<close>

definition get_local_file_contents :: "env \<Rightarrow> string \<Rightarrow> error + string" where
  "get_local_file_contents E p =
     (case get_file_contents E p of
        None \<Rightarrow> Inl (AnsibleError (''could not locate file in lookup: '' @ p))
      | Some c \<Rightarrow> Inr c)"

fun set_file_contents :: "env \<Rightarrow> planned list \<Rightarrow> error + planned list" where
  "set_file_contents E [] = Inr []"
| "set_file_contents E (f # rest) =
     (if pe_state f = ''file'' then
        (case pe_src f of
           None \<Rightarrow> Inl (KeyError ''src'')
         | Some s \<Rightarrow>
             (case (if pe_template f then template_lookup E s else get_local_file_contents E s) of
                Inl e \<Rightarrow> Inl e
              | Inr c \<Rightarrow>
                  (case set_file_contents E rest of
                     Inl e \<Rightarrow> Inl e
                   | Inr fs \<Rightarrow> Inr (f\<lparr>pe_content := Some c\<rparr> # fs))))
      else
        (case set_file_contents E rest of
           Inl e \<Rightarrow> Inl e
         | Inr fs \<Rightarrow> Inr (f # fs)))"

subsection \<open>Reconciler: \<^verbatim>\<open>_get_entries_to_delete\<close>\<close>

text \<open>
  Lines 277 to 282: an absolute ignore path is rewritten relative to the destination
  root; \<^verbatim>\<open>relative_to\<close> raises when the path is not below it.
\<close>

fun rewrite_ignore :: "string \<Rightarrow> purepath list \<Rightarrow> error + purepath list" where
  "rewrite_ignore remote_path [] = Inr []"
| "rewrite_ignore remote_path (i # rest) =
     (case (if is_absolute i then relative_to i (PurePath remote_path) else Inr i) of
        Inl e \<Rightarrow> Inl e
      | Inr i' \<Rightarrow>
          (case rewrite_ignore remote_path rest of
             Inl e \<Rightarrow> Inl e
           | Inr is \<Rightarrow> Inr (i' # is)))"

text \<open>Lines 327 to 333.\<close>

definition remote_state :: "remote_entry \<Rightarrow> string" where
  "remote_state remote_entry =
     (if re_isdir remote_entry then ''directory''
      else if re_isreg remote_entry then ''file''
      else ''other'')"

text \<open>
  The loop body (lines 285 to 342): \<open>Inr True\<close> when the remote entry is yielded for
  deletion, \<open>Inr False\<close> when it is kept.
\<close>

definition delete_decision ::
  "planned list \<Rightarrow> string \<Rightarrow> bool \<Rightarrow> purepath list \<Rightarrow> remote_entry \<Rightarrow> error + bool" where
  "delete_decision local_entries remote_path exclusive exclusive_ignore remote_entry =
     (let absolute_path = re_path remote_entry
      in case relative_to absolute_path (PurePath remote_path) of
           Inl e \<Rightarrow> Inl e
         | Inr relative_path \<Rightarrow>
             (case find (\<lambda>local_entry. PurePath (pe_dest local_entry) = absolute_path)
                     local_entries of
                None \<Rightarrow>
                  if exclusive then
                    (case find (\<lambda>ignore_path. is_relative_to relative_path ignore_path)
                            exclusive_ignore of
                       Some ignore_match \<Rightarrow> Inr False
                     | None \<Rightarrow> Inr True)
                  else Inr False
              | Some local_match \<Rightarrow>
                  if pe_state local_match \<noteq> remote_state remote_entry then Inr True
                  else Inr False))"

fun entries_to_delete_loop ::
  "planned list \<Rightarrow> string \<Rightarrow> bool \<Rightarrow> purepath list \<Rightarrow> remote_entry list
     \<Rightarrow> error + remote_entry list" where
  "entries_to_delete_loop local_entries remote_path exclusive exclusive_ignore [] = Inr []"
| "entries_to_delete_loop local_entries remote_path exclusive exclusive_ignore (r # rest) =
     (case delete_decision local_entries remote_path exclusive exclusive_ignore r of
        Inl e \<Rightarrow> Inl e
      | Inr yield \<Rightarrow>
          (case entries_to_delete_loop local_entries remote_path exclusive exclusive_ignore rest of
             Inl e \<Rightarrow> Inl e
           | Inr ds \<Rightarrow> Inr (if yield then r # ds else ds)))"

definition get_entries_to_delete ::
  "planned list \<Rightarrow> remote_entry list \<Rightarrow> string \<Rightarrow> bool \<Rightarrow> purepath list
     \<Rightarrow> error + remote_entry list" where
  "get_entries_to_delete local_entries remote_entries remote_path exclusive exclusive_ignore =
     (case rewrite_ignore remote_path exclusive_ignore of
        Inl e \<Rightarrow> Inl e
      | Inr ignore' \<Rightarrow>
          entries_to_delete_loop local_entries remote_path exclusive ignore' remote_entries)"

subsection \<open>Operation executor: \<^verbatim>\<open>_delete_entries\<close> and \<^verbatim>\<open>_create_entries\<close>\<close>

text \<open>
  Both functions take the calls made so far and return them extended by their own,
  together with the results yielded or the exception raised. A failed result raises
  \<^verbatim>\<open>AnsibleError(res["msg"])\<close>, which is a \<^verbatim>\<open>KeyError\<close> when the result has no
  message.
\<close>

definition raise_failed :: "module_result \<Rightarrow> error" where
  "raise_failed res = (case mr_msg res of None \<Rightarrow> KeyError ''msg'' | Some m \<Rightarrow> AnsibleError m)"

definition delete_op :: "remote_entry \<Rightarrow> op" where
  "delete_op entry = OpAbsent (str_path (re_path entry))"

fun delete_entries ::
  "env \<Rightarrow> remote_entry list \<Rightarrow> op list \<Rightarrow> (error + module_result list) \<times> op list" where
  "delete_entries E [] calls = (Inr [], calls)"
| "delete_entries E (entry # rest) calls =
     (let res = execute E calls (delete_op entry);
          calls' = calls @ [delete_op entry]
      in if mr_failed res then (Inl (raise_failed res), calls')
         else (case delete_entries E rest calls' of
                 (Inl e, calls'') \<Rightarrow> (Inl e, calls'')
               | (Inr results, calls'') \<Rightarrow> (Inr (res # results), calls'')))"

text \<open>
  In \<^verbatim>\<open>_create_entries\<close> an entry that is neither a file nor a directory makes no call:
  the variable \<^verbatim>\<open>result\<close> keeps the value of the iteration before (the third argument),
  and is unbound in the first iteration.
\<close>

definition create_op :: "planned \<Rightarrow> op option" where
  "create_op entry =
     (if pe_state entry = ''file'' then Some (OpCopy entry)
      else if pe_state entry = ''directory'' then Some (OpDirectory entry)
      else None)"

fun create_entries ::
  "env \<Rightarrow> planned list \<Rightarrow> module_result option \<Rightarrow> op list
     \<Rightarrow> (error + module_result list) \<times> op list" where
  "create_entries E [] previous calls = (Inr [], calls)"
| "create_entries E (entry # rest) previous calls =
     (case create_op entry of
        Some c \<Rightarrow>
          (let result = execute E calls c;
               calls' = calls @ [c]
           in if mr_failed result then (Inl (raise_failed result), calls')
              else (case create_entries E rest (Some result) calls' of
                      (Inl e, calls'') \<Rightarrow> (Inl e, calls'')
                    | (Inr results, calls'') \<Rightarrow> (Inr (result # results), calls'')))
      | None \<Rightarrow>
          (case previous of
             None \<Rightarrow> (Inl UnboundLocalError, calls)
           | Some result \<Rightarrow>
               if mr_failed result then (Inl (raise_failed result), calls)
               else (case create_entries E rest (Some result) calls of
                       (Inl e, calls') \<Rightarrow> (Inl e, calls')
                     | (Inr results, calls') \<Rightarrow> (Inr (result # results), calls'))))"

subsection \<open>Result aggregator: \<^verbatim>\<open>_build_output\<close>\<close>

record run_output =
  out_failed :: bool
  out_msg :: "string option"
  out_changed :: "bool option"
  out_deleted_entries :: "module_result list"
  out_managed_directories :: "module_result list"
  out_managed_files :: "module_result list"
  out_diff :: "string list option"

definition base_output :: run_output where
  "base_output =
     \<lparr>out_failed = False, out_msg = None, out_changed = None, out_deleted_entries = [],
      out_managed_directories = [], out_managed_files = [], out_diff = None\<rparr>"

definition classify_result :: "run_output \<Rightarrow> module_result \<Rightarrow> run_output" where
  "classify_result out result =
     (if mr_state result = Some ''absent''
        then out\<lparr>out_deleted_entries := out_deleted_entries out @ [result]\<rparr>
      else if mr_state result = Some ''directory''
        then out\<lparr>out_managed_directories := out_managed_directories out @ [result]\<rparr>
      else if mr_state result = Some ''file''
        then out\<lparr>out_managed_files := out_managed_files out @ [result]\<rparr>
      else out)"

definition add_diff :: "run_output \<Rightarrow> module_result \<Rightarrow> run_output" where
  "add_diff out result =
     (case mr_diff result of
        None \<Rightarrow> out
      | Some d \<Rightarrow>
          (let output_diff = (case out_diff out of None \<Rightarrow> [] | Some ds \<Rightarrow> ds)
           in out\<lparr>out_diff := Some (output_diff @ (case d of DiffMany l \<Rightarrow> l | DiffOne x \<Rightarrow> [x]))\<rparr>))"

fun build_output :: "run_output \<Rightarrow> module_result list \<Rightarrow> error + run_output" where
  "build_output out [] = Inr out"
| "build_output out (result # rest) =
     (let out1 = classify_result out result
      in if out_changed out1 = Some True
         then build_output (add_diff out1 result) rest
         else (case mr_changed result of
                 None \<Rightarrow> Inl (KeyError ''changed'')
               | Some c \<Rightarrow> build_output (add_diff (out1\<lparr>out_changed := Some c\<rparr>) result) rest))"

subsection \<open>\<^verbatim>\<open>run\<close>\<close>

text \<open>
  A run returns its output or raises. The model covers the runs whose source paths and
  destination root are strings, as the module documents them. With another value the code
  goes on until that value first reaches a path operation of a collaborator or of the
  standard library, and may even return normally when it never does; such a run is outside
  the model. Its outcome here is \<open>OutsideModel\<close>, which stands for no behaviour of the
  code, and no property below is about it.
\<close>

datatype outcome = Returned run_output | Raised error | OutsideModel

fun str_of_argval :: "argval \<Rightarrow> string option" where
  "str_of_argval (AStr s) = Some s"
| "str_of_argval v = None"

definition local_paths_of :: "argval \<Rightarrow> string list option" where
  "local_paths_of v = those (map str_of_argval (case v of AList l \<Rightarrow> l | x \<Rightarrow> [x]))"

definition missing_argument :: "string \<Rightarrow> outcome" where
  "missing_argument arg =
     Returned (base_output\<lparr>out_failed := True,
                            out_msg := Some (''missing required argument '' @ quoted arg)\<rparr>)"

text \<open>
  Lines 19 to 55 of \<^verbatim>\<open>run\<close>: the argument checks and the computation of \<^verbatim>\<open>to_delete\<close>
  and \<^verbatim>\<open>to_create\<close>. No changing module call is made here; \<open>Inl\<close> is the outcome of a run
  that ends in these lines.
\<close>

definition run_plan :: "env \<Rightarrow> task_args \<Rightarrow> outcome + remote_entry list \<times> planned list" where
  "run_plan E args =
     (if args ''src'' = None then Inl (missing_argument ''src'')
      else if args ''dest'' = None then Inl (missing_argument ''dest'')
      else
        let owner = get_arg args ''owner'' ANone;
            grp = get_arg args ''group'' ANone;
            file_mode = get_arg args ''file_mode'' ANone;
            directory_mode = get_arg args ''directory_mode'' ANone;
            exclusive = truthy (get_arg args ''exclusive'' (ABool False))
        in case parse_path_list args ''exclusive_ignore'' of
             Inl e \<Rightarrow> Inl (Raised e)
           | Inr exclusive_ignore \<Rightarrow>
        (case (str_of_argval (get_arg args ''dest'' ANone),
               local_paths_of (get_arg args ''src'' ANone)) of
           (Some remote_path, Some local_paths) \<Rightarrow>
             (let local_entries = get_local_entries E local_paths
              in case get_remote_entries E remote_path of
                   Inl e \<Rightarrow> Inl (Raised e)
                 | Inr remote_entries \<Rightarrow>
              (case get_entries_to_create local_entries remote_path owner grp
                      file_mode directory_mode of
                 Inl e \<Rightarrow> Inl (Raised e)
               | Inr to_create0 \<Rightarrow>
              (case set_file_contents E to_create0 of
                 Inl e \<Rightarrow> Inl (Raised e)
               | Inr to_create \<Rightarrow>
              (case get_entries_to_delete to_create remote_entries remote_path
                      exclusive exclusive_ignore of
                 Inl e \<Rightarrow> Inl (Raised e)
               | Inr to_delete \<Rightarrow> Inr (to_delete, to_create)))))
         | _ \<Rightarrow> Inl OutsideModel))"

text \<open>
  Lines 57 to 61 of \<^verbatim>\<open>run\<close>: all deletes, then all creates, then the output. The
  second component is the list of changing module calls made, in order.
\<close>

definition run_apply :: "env \<Rightarrow> remote_entry list \<Rightarrow> planned list \<Rightarrow> outcome \<times> op list" where
  "run_apply E to_delete to_create =
     (case delete_entries E to_delete [] of
        (Inl e, calls) \<Rightarrow> (Raised e, calls)
      | (Inr results, calls) \<Rightarrow>
          (case create_entries E to_create None calls of
             (Inl e, calls') \<Rightarrow> (Raised e, calls')
           | (Inr results', calls') \<Rightarrow>
               (case build_output base_output (results @ results') of
                  Inl e \<Rightarrow> (Raised e, calls')
                | Inr out \<Rightarrow> (Returned out, calls'))))"

definition run :: "env \<Rightarrow> task_args \<Rightarrow> outcome \<times> op list" where
  "run E args =
     (case run_plan E args of
        Inl out \<Rightarrow> (out, [])
      | Inr (to_delete, to_create) \<Rightarrow> run_apply E to_delete to_create)"

section \<open>Notions used to state the properties\<close>

text \<open>A valid path value of a path-list argument is a string.\<close>

fun is_path_value :: "argval \<Rightarrow> bool" where
  "is_path_value (AStr s) = True"
| "is_path_value v = False"

definition valid_path_values :: "argval \<Rightarrow> bool" where
  "valid_path_values v =
     (case v of AList l \<Rightarrow> list_all is_path_value l | x \<Rightarrow> is_path_value x)"

text \<open>
  \<open>under p q\<close>: the path \<open>p\<close> is equal to \<open>q\<close> or nested under it.
\<close>

definition under :: "purepath \<Rightarrow> purepath \<Rightarrow> bool" where
  "under p q = (anchor p = anchor q \<and> prefix (parts q) (parts p))"

text \<open>The path of a remote entry relative to the destination root.\<close>

definition relative_path_of :: "string \<Rightarrow> remote_entry \<Rightarrow> purepath" where
  "relative_path_of remote_path r =
     Path [] (drop (length (parts (PurePath remote_path))) (parts (re_path r)))"

text \<open>
  A remote entry is exempted by \<^verbatim>\<open>exclusive_ignore\<close> when it is equal to or nested under
  one of its paths: an absolute ignore path is compared with the absolute path of the
  entry, a relative one with the entry's path relative to the destination root.
\<close>

definition ignored :: "string \<Rightarrow> purepath list \<Rightarrow> remote_entry \<Rightarrow> bool" where
  "ignored remote_path exclusive_ignore r =
     list_ex (\<lambda>i. if is_absolute i then under (re_path r) i
                   else under (relative_path_of remote_path r) i) exclusive_ignore"

text \<open>
  The kinds of a planned entry and a remote entry match: a planned file matches a regular
  file, a planned directory matches a directory, and a remote entry with both flags false
  matches nothing.
\<close>

definition kinds_match :: "planned \<Rightarrow> remote_entry \<Rightarrow> bool" where
  "kinds_match p r =
     (pe_state p = ''file'' \<and> re_isreg r \<and> \<not> re_isdir r
      \<or> pe_state p = ''directory'' \<and> re_isdir r)"

text \<open>The planned entry the reconciler matches a remote entry with: the first one.\<close>

definition local_match :: "planned list \<Rightarrow> remote_entry \<Rightarrow> planned option" where
  "local_match to_create r = find (\<lambda>p. PurePath (pe_dest p) = re_path r) to_create"

text \<open>Auxiliary: an ignore path after line 279, and the decision of the loop body.\<close>

definition relativised :: "string \<Rightarrow> purepath \<Rightarrow> purepath" where
  "relativised remote_path i =
     (if is_absolute i
      then Path [] (drop (length (parts (PurePath remote_path))) (parts i))
      else i)"

definition decides_delete ::
  "planned list \<Rightarrow> string \<Rightarrow> bool \<Rightarrow> purepath list \<Rightarrow> remote_entry \<Rightarrow> bool" where
  "decides_delete to_create remote_path exclusive ign r =
     (case find (\<lambda>l. PurePath (pe_dest l) = re_path r) to_create of
        None \<Rightarrow> exclusive \<and> \<not> list_ex (is_relative_to (relative_path_of remote_path r)) ign
      | Some m \<Rightarrow> pe_state m \<noteq> remote_state r)"

text \<open>
  Auxiliary: making a list of calls in order, up to the first failed result. Both executor
  loops are instances of it.
\<close>

fun perform :: "env \<Rightarrow> op list \<Rightarrow> op list \<Rightarrow> (error + module_result list) \<times> op list" where
  "perform E [] calls = (Inr [], calls)"
| "perform E (c # cs) calls =
     (if mr_failed (execute E calls c) then (Inl (raise_failed (execute E calls c)), calls @ [c])
      else (case perform E cs (calls @ [c]) of
              (Inl e, calls') \<Rightarrow> (Inl e, calls')
            | (Inr results, calls') \<Rightarrow> (Inr (execute E calls c # results), calls')))"

text \<open>
  The changing module calls of a plan, in the order of \<^verbatim>\<open>run\<close>: one delete per entry of
  \<^verbatim>\<open>to_delete\<close>, then one create or update per entry of \<^verbatim>\<open>to_create\<close>.
\<close>

definition planned_calls :: "remote_entry list \<Rightarrow> planned list \<Rightarrow> op list" where
  "planned_calls to_delete to_create =
     map delete_op to_delete @ List.map_filter create_op to_create"

text \<open>The planned entry of a local entry, when the path mapper yields one.\<close>

definition mapped_entry ::
  "string \<Rightarrow> argval \<Rightarrow> argval \<Rightarrow> argval \<Rightarrow> argval \<Rightarrow> local_entry \<Rightarrow> planned option" where
  "mapped_entry remote_path owner grp file_mode directory_mode e =
     (case entry_to_create remote_path owner grp file_mode directory_mode e of
        Inl err \<Rightarrow> None
      | Inr x \<Rightarrow> x)"

text \<open>
  Auxiliary: the components \<^verbatim>\<open>PurePath\<close> keeps, and the number of leading separators of
  a string.
\<close>

definition seg_ok :: "string \<Rightarrow> bool" where
  "seg_ok = (\<lambda>x. x \<noteq> [] \<and> x \<noteq> ''.'')"

definition leading :: "string \<Rightarrow> nat" where
  "leading s = length (takeWhile (\<lambda>c. c = CHR ''/'') s)"

section \<open>A sample run\<close>

text \<open>
  The scenario of the specification: the source root \<^verbatim>\<open>app/\<close> holds the file
  \<^verbatim>\<open>config.yml\<close> and the directory \<^verbatim>\<open>data\<close>; the destination \<^verbatim>\<open>/opt/app\<close> holds a stray
  file \<^verbatim>\<open>old.txt\<close> and a directory where \<^verbatim>\<open>config.yml\<close> is expected. Every module call
  succeeds.
\<close>

definition ok_result :: module_result where
  "ok_result =
     \<lparr>mr_failed = False, mr_msg = None, mr_state = None, mr_changed = Some True,
      mr_diff = None\<rparr>"

definition sample_env :: env where
  "sample_env =
     \<lparr>path_dwim_relative = (\<lambda>p. ''/role/files/'' @ p),
      is_regular_file = (\<lambda>p. False),
      filetree = (\<lambda>roots.
        [\<lparr>le_root = ''/role/files/app/'', le_path = ''config.yml'', le_state = ''file'',
          le_src = Some ''/role/files/app/config.yml''\<rparr>,
         \<lparr>le_root = ''/role/files/app/'', le_path = ''data'', le_state = ''directory'',
          le_src = None\<rparr>]),
      find_files = (\<lambda>d.
        Some [\<lparr>ff_path = ''/opt/app/old.txt'', ff_isdir = False, ff_isreg = True\<rparr>,
              \<lparr>ff_path = ''/opt/app/config.yml'', ff_isdir = True, ff_isreg = False\<rparr>]),
      template_lookup = (\<lambda>p. Inr ''rendered''),
      get_file_contents = (\<lambda>p. Some ''plain''),
      execute = (\<lambda>calls c. ok_result)\<rparr>"

definition sample_args :: task_args where
  "sample_args =
     [''src'' \<mapsto> AList [AStr ''app/''], ''dest'' \<mapsto> AStr ''/opt/app'',
      ''exclusive'' \<mapsto> ABool True]"

text \<open>The plan of the sample run, and a third remote entry below an ignored path.\<close>

definition sample_dir :: "string \<Rightarrow> planned" where
  "sample_dir d =
     \<lparr>pe_dest = d, pe_state = ''directory'', pe_owner = ANone, pe_group = ANone,
      pe_src = None, pe_template = False, pe_mode = ANone, pe_content = None\<rparr>"

definition sample_file :: "string \<Rightarrow> string \<Rightarrow> planned" where
  "sample_file d s =
     \<lparr>pe_dest = d, pe_state = ''file'', pe_owner = ANone, pe_group = ANone,
      pe_src = Some s, pe_template = False, pe_mode = ANone, pe_content = Some ''plain''\<rparr>"

definition sample_to_create :: "planned list" where
  "sample_to_create =
     [sample_dir ''/opt/app'',
      sample_file ''/opt/app/config.yml'' ''/role/files/app/config.yml'',
      sample_dir ''/opt/app/data'']"

definition remote_old :: remote_entry where
  "remote_old = \<lparr>re_path = PurePath ''/opt/app/old.txt/.'', re_isdir = False, re_isreg = True\<rparr>"

definition remote_config :: remote_entry where
  "remote_config =
     \<lparr>re_path = PurePath ''/opt/app/config.yml/.'', re_isdir = True, re_isreg = False\<rparr>"

definition remote_kept :: remote_entry where
  "remote_kept =
     \<lparr>re_path = PurePath ''/opt/app/keep/cache.db/.'', re_isdir = False, re_isreg = True\<rparr>"

definition remote_data :: remote_entry where
  "remote_data = \<lparr>re_path = PurePath ''/opt/app/data/.'', re_isdir = True, re_isreg = False\<rparr>"

text \<open>
  Two source roots that map to one destination path with different kinds: the regular
  file \<^verbatim>\<open>x/f\<close> and the directory \<^verbatim>\<open>y/f\<close> (given without a trailing separator). The
  destination holds a directory \<^verbatim>\<open>f\<close>.
\<close>

definition clash_env :: env where
  "clash_env =
     sample_env\<lparr>is_regular_file := (\<lambda>p. p = ''/role/files/x/f''),
                filetree := (\<lambda>roots. []),
                find_files := (\<lambda>d.
                  Some [\<lparr>ff_path = ''/opt/app/f'', ff_isdir = True, ff_isreg = False\<rparr>])\<rparr>"

definition remote_f :: remote_entry where
  "remote_f = \<lparr>re_path = PurePath ''/opt/app/f/.'', re_isdir = True, re_isreg = False\<rparr>"

definition dir_first_args :: task_args where
  "dir_first_args =
     [''src'' \<mapsto> AList [AStr ''y/f'', AStr ''x/f''], ''dest'' \<mapsto> AStr ''/opt/app'']"

definition file_first_args :: task_args where
  "file_first_args =
     [''src'' \<mapsto> AList [AStr ''x/f'', AStr ''y/f''], ''dest'' \<mapsto> AStr ''/opt/app'']"

text \<open>The sample run with a delete that fails.\<close>

definition failed_result :: module_result where
  "failed_result =
     \<lparr>mr_failed = True, mr_msg = Some ''permission denied'', mr_state = None,
      mr_changed = Some False, mr_diff = None\<rparr>"

definition failing_env :: env where
  "failing_env =
     sample_env\<lparr>execute := (\<lambda>calls c.
        if c = OpAbsent ''/opt/app/config.yml'' then failed_result else ok_result)\<rparr>"

text \<open>
  The file \<^verbatim>\<open>config.yml\<close> found below the root \<^verbatim>\<open>files/app/\<close>, and the template
  \<^verbatim>\<open>conf/config.yml.j2\<close> found below the root \<^verbatim>\<open>files/app\<close>.
\<close>

definition entry_slash_root :: local_entry where
  "entry_slash_root =
     \<lparr>le_root = ''files/app/'', le_path = ''config.yml'', le_state = ''file'',
      le_src = Some ''files/app/config.yml''\<rparr>"

definition entry_bare_root :: local_entry where
  "entry_bare_root =
     \<lparr>le_root = ''files/app'', le_path = ''conf/config.yml.j2'', le_state = ''file'',
      le_src = Some ''files/app/conf/config.yml.j2''\<rparr>"

text \<open>
  Two directory roots: \<^verbatim>\<open>a/\<close> holds \<^verbatim>\<open>shared.txt\<close>, and \<^verbatim>\<open>b/\<close> holds \<^verbatim>\<open>shared.txt\<close> and
  \<^verbatim>\<open>only.txt\<close>. The filetree lookup returns, for the roots it is given, the first entry
  found for each relative path. The destination is empty.
\<close>

definition shared_a :: local_entry where
  "shared_a =
     \<lparr>le_root = ''/role/files/a/'', le_path = ''shared.txt'', le_state = ''file'',
      le_src = Some ''/role/files/a/shared.txt''\<rparr>"

definition shared_b :: local_entry where
  "shared_b =
     \<lparr>le_root = ''/role/files/b/'', le_path = ''shared.txt'', le_state = ''file'',
      le_src = Some ''/role/files/b/shared.txt''\<rparr>"

definition only_b :: local_entry where
  "only_b =
     \<lparr>le_root = ''/role/files/b/'', le_path = ''only.txt'', le_state = ''file'',
      le_src = Some ''/role/files/b/only.txt''\<rparr>"

definition root_entry :: "string \<Rightarrow> local_entry" where
  "root_entry local_path =
     \<lparr>le_root = local_path, le_path = [], le_state = ''directory'', le_src = None\<rparr>"

definition two_roots_env :: env where
  "two_roots_env =
     sample_env\<lparr>
       filetree := (\<lambda>roots.
         (if ''a/'' \<in> set roots then [shared_a]
          else if ''b/'' \<in> set roots then [shared_b] else [])
         @ (if ''b/'' \<in> set roots then [only_b] else [])),
       find_files := (\<lambda>d. Some [])\<rparr>"

definition two_roots_args :: task_args where
  "two_roots_args =
     [''src'' \<mapsto> AList [AStr ''a/'', AStr ''b/''], ''dest'' \<mapsto> AStr ''/opt/app'']"

section \<open>Properties\<close>

lemma split_sep_nonempty: "split_sep s \<noteq> []"
  by (induction s) (auto split: list.splits)

subsection \<open>Invalid arguments\<close>

lemma those_path_of_argval:
  "those (map path_of_argval l) = None \<longleftrightarrow> \<not> list_all is_path_value l"
proof (induction l)
  case Nil
  show ?case by simp
next
  case (Cons a l)
  show ?case
  proof (cases a)
    case (AStr s)
    with Cons show ?thesis by (simp split: option.splits)
  qed (simp_all)
qed

lemma parse_path_list_invalid:
  assumes "args argname = Some v" and "\<not> valid_path_values v"
  shows "parse_path_list args argname =
           Inl (AnsibleError
                  (''Argument '' @ [CHR 0x27] @ argname @ [CHR 0x27] @
                     (case v of
                        AList l \<Rightarrow> '' contains one or more values of an invalid type''
                      | x \<Rightarrow> '' is of an invalid type'')))"
proof (cases v)
  case (AList l)
  with assms have "those (map path_of_argval l) = None"
    by (simp add: valid_path_values_def those_path_of_argval)
  with AList assms(1) show ?thesis
    by (simp add: parse_path_list_def get_arg_def quoted_def)
qed (use assms in \<open>simp_all add: parse_path_list_def get_arg_def quoted_def valid_path_values_def\<close>)

text \<open>
  Claim C7. When \<^verbatim>\<open>src\<close> or \<^verbatim>\<open>dest\<close> is missing, or \<^verbatim>\<open>exclusive_ignore\<close> holds a value
  that is not a valid path value, the run fails with an error about that argument and has
  made no delete and no create or update call. For a missing argument (\<^verbatim>\<open>src\<close> is looked
  at first) the run returns an output with \<^verbatim>\<open>failed\<close> set and the message
  \<^verbatim>\<open>missing required argument\<close> naming it. With both present and a value of
  \<^verbatim>\<open>exclusive_ignore\<close> that is not a string (or a list holding one) the run raises the
  \<^verbatim>\<open>AnsibleError\<close> of \<^verbatim>\<open>_parse_path_list\<close>.
\<close>

theorem invalid_arguments_fail_before_mutation:
  assumes "args ''src'' = None \<or> args ''dest'' = None
           \<or> (args ''exclusive_ignore'' = Some v \<and> \<not> valid_path_values v)"
  shows "snd (run E args) = []
       \<and> (args ''src'' = None \<longrightarrow>
            (\<exists>out. fst (run E args) = Returned out \<and> out_failed out
               \<and> out_msg out
                    = Some (''missing required argument '' @ [CHR 0x27] @ ''src'' @ [CHR 0x27])))
       \<and> (args ''src'' \<noteq> None \<and> args ''dest'' = None \<longrightarrow>
            (\<exists>out. fst (run E args) = Returned out \<and> out_failed out
               \<and> out_msg out
                    = Some (''missing required argument '' @ [CHR 0x27] @ ''dest'' @ [CHR 0x27])))
       \<and> (args ''src'' \<noteq> None \<and> args ''dest'' \<noteq> None \<longrightarrow>
            fst (run E args)
              = Raised (AnsibleError
                  (''Argument '' @ [CHR 0x27] @ ''exclusive_ignore'' @ [CHR 0x27] @
                     (case v of
                        AList l \<Rightarrow> '' contains one or more values of an invalid type''
                      | x \<Rightarrow> '' is of an invalid type''))))"
proof -
  have 1: "run E args
             = (Returned (base_output\<lparr>out_failed := True,
                   out_msg := Some (''missing required argument '' @ [CHR 0x27] @ ''src'' @ [CHR 0x27])\<rparr>),
                [])"
    if "args ''src'' = None"
    using that by (simp add: run_def run_plan_def missing_argument_def quoted_def)
  have 2: "run E args
             = (Returned (base_output\<lparr>out_failed := True,
                   out_msg := Some (''missing required argument '' @ [CHR 0x27] @ ''dest'' @ [CHR 0x27])\<rparr>),
                [])"
    if "args ''src'' \<noteq> None" "args ''dest'' = None"
    using that by (auto simp: run_def run_plan_def missing_argument_def quoted_def)
  have 3: "run E args
             = (Raised (AnsibleError
                  (''Argument '' @ [CHR 0x27] @ ''exclusive_ignore'' @ [CHR 0x27] @
                     (case v of
                        AList l \<Rightarrow> '' contains one or more values of an invalid type''
                      | x \<Rightarrow> '' is of an invalid type''))),
                [])"
    if p: "args ''src'' \<noteq> None" "args ''dest'' \<noteq> None"
  proof -
    from p assms have "args ''exclusive_ignore'' = Some v \<and> \<not> valid_path_values v"
      by auto
    then have "args ''exclusive_ignore'' = Some v" "\<not> valid_path_values v"
      by simp_all
    then have "parse_path_list args ''exclusive_ignore''
        = Inl (AnsibleError
                  (''Argument '' @ [CHR 0x27] @ ''exclusive_ignore'' @ [CHR 0x27] @
                     (case v of
                        AList l \<Rightarrow> '' contains one or more values of an invalid type''
                      | x \<Rightarrow> '' is of an invalid type'')))"
      by (rule parse_path_list_invalid)
    with p show ?thesis by (auto simp: run_def run_plan_def Let_def)
  qed
  have c: "snd (run E args) = []"
  proof (cases "args ''src'' = None")
    case True
    then show ?thesis by (simp add: 1)
  next
    case ns: False
    show ?thesis
    proof (cases "args ''dest'' = None")
      case True
      with ns show ?thesis by (simp add: 2)
    next
      case False
      with ns show ?thesis by (simp add: 3)
    qed
  qed
  have a: "\<exists>out. fst (run E args) = Returned out \<and> out_failed out
               \<and> out_msg out
                    = Some (''missing required argument '' @ [CHR 0x27] @ ''src'' @ [CHR 0x27])"
    if "args ''src'' = None"
    using 1 [OF that] by simp
  have b: "\<exists>out. fst (run E args) = Returned out \<and> out_failed out
               \<and> out_msg out
                    = Some (''missing required argument '' @ [CHR 0x27] @ ''dest'' @ [CHR 0x27])"
    if "args ''src'' \<noteq> None" "args ''dest'' = None"
    using 2 [OF that] by simp
  have d: "fst (run E args)
              = Raised (AnsibleError
                  (''Argument '' @ [CHR 0x27] @ ''exclusive_ignore'' @ [CHR 0x27] @
                     (case v of
                        AList l \<Rightarrow> '' contains one or more values of an invalid type''
                      | x \<Rightarrow> '' is of an invalid type'')))"
    if "args ''src'' \<noteq> None" "args ''dest'' \<noteq> None"
    using 3 [OF that] by simp
  show ?thesis
  proof (intro conjI impI)
    show "snd (run E args) = []" by (rule c)
  next
    assume "args ''src'' = None"
    then show "\<exists>out. fst (run E args) = Returned out \<and> out_failed out
               \<and> out_msg out
                    = Some (''missing required argument '' @ [CHR 0x27] @ ''src'' @ [CHR 0x27])"
      by (rule a)
  next
    assume "args ''src'' \<noteq> None \<and> args ''dest'' = None"
    then have "args ''src'' \<noteq> None" "args ''dest'' = None" by simp_all
    then show "\<exists>out. fst (run E args) = Returned out \<and> out_failed out
               \<and> out_msg out
                    = Some (''missing required argument '' @ [CHR 0x27] @ ''dest'' @ [CHR 0x27])"
      by (rule b)
  next
    assume "args ''src'' \<noteq> None \<and> args ''dest'' \<noteq> None"
    then have "args ''src'' \<noteq> None" "args ''dest'' \<noteq> None" by simp_all
    then show "fst (run E args)
              = Raised (AnsibleError
                  (''Argument '' @ [CHR 0x27] @ ''exclusive_ignore'' @ [CHR 0x27] @
                     (case v of
                        AList l \<Rightarrow> '' contains one or more values of an invalid type''
                      | x \<Rightarrow> '' is of an invalid type'')))"
      by (rule d)
  qed
qed

theorem invalid_arguments_fail_before_mutation_witness:
  "snd (run sample_env (sample_args(''src'' := None))) = []
   \<and> (\<exists>out. fst (run sample_env (sample_args(''src'' := None))) = Returned out
         \<and> out_failed out
         \<and> out_msg out
              = Some (''missing required argument '' @ [CHR 0x27] @ ''src'' @ [CHR 0x27]))
   \<and> snd (run sample_env (sample_args(''dest'' := None))) = []
   \<and> (\<exists>out. fst (run sample_env (sample_args(''dest'' := None))) = Returned out
         \<and> out_failed out
         \<and> out_msg out
              = Some (''missing required argument '' @ [CHR 0x27] @ ''dest'' @ [CHR 0x27]))
   \<and> \<not> valid_path_values (AList [AStr ''keep'', AInt 3])
   \<and> run sample_env (sample_args(''exclusive_ignore'' \<mapsto> AList [AStr ''keep'', AInt 3]))
       = (Raised (AnsibleError
            (''Argument '' @ [CHR 0x27] @ ''exclusive_ignore'' @ [CHR 0x27]
               @ '' contains one or more values of an invalid type'')),
          [])"
proof -
  let ?a1 = "sample_args(''src'' := None)"
  let ?a2 = "sample_args(''dest'' := None)"
  let ?a3 = "sample_args(''exclusive_ignore'' \<mapsto> AList [AStr ''keep'', AInt 3])"
  have s1: "?a1 ''src'' = None" by simp
  have s2: "?a2 ''src'' \<noteq> None" "?a2 ''dest'' = None" by (simp_all add: sample_args_def)
  have s3: "?a3 ''src'' \<noteq> None" "?a3 ''dest'' \<noteq> None"
    "?a3 ''exclusive_ignore'' = Some (AList [AStr ''keep'', AInt 3])"
    by (simp_all add: sample_args_def)
  have h: "\<not> valid_path_values (AList [AStr ''keep'', AInt 3])"
    by (simp add: valid_path_values_def)
  note t1 = invalid_arguments_fail_before_mutation [of ?a1 ANone sample_env, OF disjI1 [OF s1]]
  note t2 = invalid_arguments_fail_before_mutation
              [of ?a2 ANone sample_env, OF disjI2 [OF disjI1 [OF s2(2)]]]
  note t3 = invalid_arguments_fail_before_mutation
              [of ?a3 "AList [AStr ''keep'', AInt 3]" sample_env,
               OF disjI2 [OF disjI2 [OF conjI [OF s3(3) h]]]]
  from t1 have r1a: "snd (run sample_env ?a1) = []" by (rule conjunct1)
  from t1 have "?a1 ''src'' = None \<longrightarrow>
      (\<exists>out. fst (run sample_env ?a1) = Returned out \<and> out_failed out
         \<and> out_msg out
              = Some (''missing required argument '' @ [CHR 0x27] @ ''src'' @ [CHR 0x27]))"
    by (rule conjunct1 [OF conjunct2])
  from mp [OF this s1] have r1b: "\<exists>out. fst (run sample_env ?a1) = Returned out \<and> out_failed out
         \<and> out_msg out
              = Some (''missing required argument '' @ [CHR 0x27] @ ''src'' @ [CHR 0x27])" .
  from t2 have r2a: "snd (run sample_env ?a2) = []" by (rule conjunct1)
  from t2 have "?a2 ''src'' \<noteq> None \<and> ?a2 ''dest'' = None \<longrightarrow>
      (\<exists>out. fst (run sample_env ?a2) = Returned out \<and> out_failed out
         \<and> out_msg out
              = Some (''missing required argument '' @ [CHR 0x27] @ ''dest'' @ [CHR 0x27]))"
    by (rule conjunct1 [OF conjunct2 [OF conjunct2]])
  from mp [OF this conjI [OF s2]] have r2b: "\<exists>out. fst (run sample_env ?a2) = Returned out \<and> out_failed out
         \<and> out_msg out
              = Some (''missing required argument '' @ [CHR 0x27] @ ''dest'' @ [CHR 0x27])" .
  from t3 have r3a: "snd (run sample_env ?a3) = []" by (rule conjunct1)
  from t3 have "?a3 ''src'' \<noteq> None \<and> ?a3 ''dest'' \<noteq> None \<longrightarrow>
    fst (run sample_env ?a3)
       = Raised (AnsibleError
            (''Argument '' @ [CHR 0x27] @ ''exclusive_ignore'' @ [CHR 0x27] @
               (case AList [AStr ''keep'', AInt 3] of
                  AList l \<Rightarrow> '' contains one or more values of an invalid type''
                | x \<Rightarrow> '' is of an invalid type'')))"
    by (rule conjunct2 [OF conjunct2 [OF conjunct2]])
  from mp [OF this conjI [OF s3(1,2)]] r3a have r3: "run sample_env ?a3
       = (Raised (AnsibleError
            (''Argument '' @ [CHR 0x27] @ ''exclusive_ignore'' @ [CHR 0x27]
               @ '' contains one or more values of an invalid type'')),
          [])"
    by (simp add: prod_eq_iff)
  from r1a r1b r2a r2b h r3 show ?thesis by (intro conjI)
qed


subsection \<open>The reconciler\<close>

lemma is_relative_to_under: "is_relative_to p q = under p q"
  by (simp add: is_relative_to_def relative_to_def under_def)

lemma relative_to_under:
  "under p q \<Longrightarrow> relative_to p q = Inr (Path [] (drop (length (parts q)) (parts p)))"
  by (simp add: relative_to_def under_def)

lemma relative_to_not_under: "\<not> under p q \<Longrightarrow> relative_to p q = Inl ValueError"
  by (auto simp add: relative_to_def under_def)

lemma rewrite_ignore_ok:
  assumes "\<forall>i\<in>set ign. is_absolute i \<longrightarrow> under i (PurePath remote_path)"
  shows "rewrite_ignore remote_path ign = Inr (map (relativised remote_path) ign)"
  using assms
  by (induction ign) (auto simp: relativised_def relative_to_under)

lemma rewrite_ignore_fails:
  assumes "i \<in> set ign" "is_absolute i" "\<not> under i (PurePath remote_path)"
  shows "rewrite_ignore remote_path ign = Inl ValueError"
  using assms
proof (induction ign)
  case Nil
  then show ?case by simp
next
  case (Cons a ign)
  show ?case
  proof (cases "is_absolute a \<and> \<not> under a (PurePath remote_path)")
    case True
    then show ?thesis by (simp add: relative_to_not_under)
  next
    case False
    with Cons.prems have "i \<in> set ign" by auto
    with Cons have IH: "rewrite_ignore remote_path ign = Inl ValueError" by simp
    from False show ?thesis
      by (cases "is_absolute a") (simp_all add: IH relative_to_under)
  qed
qed

lemma prefix_drop_common:
  assumes "prefix d a" "prefix d b"
  shows "prefix (drop (length d) a) (drop (length d) b) \<longleftrightarrow> prefix a b"
proof -
  from assms obtain a' b' where "a = d @ a'" "b = d @ b'" by (auto simp: prefix_def)
  then show ?thesis by simp
qed

lemma find_None_list_ex: "find P xs = None \<longleftrightarrow> \<not> list_ex P xs"
  by (induction xs) auto

lemma delete_decision_under:
  assumes "under (re_path r) (PurePath remote_path)"
  shows "delete_decision to_create remote_path exclusive ign' r =
           Inr (decides_delete to_create remote_path exclusive ign' r)"
proof -
  have "find (is_relative_to (relative_path_of remote_path r)) ign' = None
          \<longleftrightarrow> \<not> list_ex (is_relative_to (relative_path_of remote_path r)) ign'"
    by (rule find_None_list_ex)
  then show ?thesis
    using assms
    by (auto simp: delete_decision_def decides_delete_def relative_to_under relative_path_of_def
             split: option.splits)
qed

lemma entries_to_delete_loop_under:
  assumes "\<forall>r\<in>set rs. under (re_path r) (PurePath remote_path)"
  shows "entries_to_delete_loop to_create remote_path exclusive ign' rs =
           Inr (filter (decides_delete to_create remote_path exclusive ign') rs)"
  using assms by (induction rs) (simp_all add: delete_decision_under)

lemma get_entries_to_delete_filter:
  assumes "\<forall>r\<in>set rs. under (re_path r) (PurePath remote_path)"
      and "\<forall>i\<in>set ign. is_absolute i \<longrightarrow> under i (PurePath remote_path)"
  shows "get_entries_to_delete to_create rs remote_path exclusive ign =
           Inr (filter (decides_delete to_create remote_path exclusive
                          (map (relativised remote_path) ign)) rs)"
  using assms
  by (simp add: get_entries_to_delete_def rewrite_ignore_ok entries_to_delete_loop_under)

lemma get_entries_to_delete_Inr_filter:
  assumes "get_entries_to_delete to_create rs remote_path exclusive ign = Inr ds"
  shows "\<exists>ign'. rewrite_ignore remote_path ign = Inr ign' \<and>
          ds = filter (decides_delete to_create remote_path exclusive ign') rs
          \<and> (\<forall>r\<in>set rs. under (re_path r) (PurePath remote_path))"
proof -
  from assms obtain ign' where i: "rewrite_ignore remote_path ign = Inr ign'"
    and l: "entries_to_delete_loop to_create remote_path exclusive ign' rs = Inr ds"
    by (auto simp: get_entries_to_delete_def split: sum.splits)
  have "ds = filter (decides_delete to_create remote_path exclusive ign') rs
          \<and> (\<forall>r\<in>set rs. under (re_path r) (PurePath remote_path))"
    using l
  proof (induction rs arbitrary: ds)
    case Nil
    then show ?case by simp
  next
    case (Cons r rs)
    from Cons.prems obtain y ds' where
      d: "delete_decision to_create remote_path exclusive ign' r = Inr y"
      and r: "entries_to_delete_loop to_create remote_path exclusive ign' rs = Inr ds'"
      and e: "ds = (if y then r # ds' else ds')"
      by (auto split: sum.splits)
    from d have u: "under (re_path r) (PurePath remote_path)"
      by (cases "under (re_path r) (PurePath remote_path)")
         (auto simp: delete_decision_def relative_to_not_under)
    with d have "y = decides_delete to_create remote_path exclusive ign' r"
      by (simp add: delete_decision_under)
    with Cons.IH [OF r] u e show ?case by simp
  qed
  with i show ?thesis by blast
qed

lemma ignored_iff:
  assumes r: "under (re_path r) (PurePath remote_path)"
      and i: "\<forall>i\<in>set ign. is_absolute i \<longrightarrow> under i (PurePath remote_path)"
  shows "list_ex (is_relative_to (relative_path_of remote_path r)) (map (relativised remote_path) ign)
           \<longleftrightarrow> ignored remote_path ign r"
proof -
  have "is_relative_to (relative_path_of remote_path r) (relativised remote_path j)
          \<longleftrightarrow> (if is_absolute j then under (re_path r) j
               else under (relative_path_of remote_path r) j)" if j: "j \<in> set ign" for j
  proof (cases "is_absolute j")
    case True
    with i j have uj: "under j (PurePath remote_path)" by blast
    from uj r have "prefix (drop (length (parts (PurePath remote_path))) (parts j))
                      (drop (length (parts (PurePath remote_path))) (parts (re_path r)))
                    \<longleftrightarrow> prefix (parts j) (parts (re_path r))"
      by (intro prefix_drop_common) (simp_all add: under_def)
    moreover from uj r have "anchor (re_path r) = anchor j" by (simp add: under_def)
    ultimately show ?thesis using True
      by (simp add: is_relative_to_under relativised_def relative_path_of_def under_def)
  next
    case False
    then show ?thesis by (simp add: is_relative_to_under relativised_def)
  qed
  then show ?thesis
    by (auto simp: ignored_def list_ex_iff)
qed

text \<open>
  Claim C2, for the runs in which the delete set is computed. The reconciler raises the
  \<^verbatim>\<open>ValueError\<close> of \<^verbatim>\<open>relative_to\<close>, and queues nothing, when a listed remote entry or an
  absolute ignore path is neither the destination root nor below it. When every listed
  remote entry and every absolute ignore path is the destination root or below it, the
  reconciler returns a delete set, and a remote entry whose path is the destination path
  of no planned entry is in it if and only if \<^verbatim>\<open>exclusive\<close> holds and the entry is neither
  equal to nor nested under a path of \<^verbatim>\<open>exclusive_ignore\<close>. In particular no such entry is
  deleted when \<^verbatim>\<open>exclusive\<close> is false.
\<close>

theorem unmatched_deleted_iff_exclusive_and_not_ignored:
  assumes "\<forall>r\<in>set remote_entries. under (re_path r) (PurePath remote_path)"
      and "\<forall>i\<in>set exclusive_ignore. is_absolute i \<longrightarrow> under i (PurePath remote_path)"
  shows "\<exists>to_delete.
           get_entries_to_delete to_create remote_entries remote_path exclusive exclusive_ignore
             = Inr to_delete
           \<and> (\<forall>r\<in>set remote_entries.
                 (\<forall>p\<in>set to_create. PurePath (pe_dest p) \<noteq> re_path r) \<longrightarrow>
                 (r \<in> set to_delete \<longleftrightarrow>
                    exclusive \<and> \<not> ignored remote_path exclusive_ignore r))"
proof -
  let ?D = "decides_delete to_create remote_path exclusive
              (map (relativised remote_path) exclusive_ignore)"
  have "r \<in> set (filter ?D remote_entries)
          \<longleftrightarrow> exclusive \<and> \<not> ignored remote_path exclusive_ignore r"
    if r: "r \<in> set remote_entries"
      and n: "\<forall>p\<in>set to_create. PurePath (pe_dest p) \<noteq> re_path r" for r
  proof -
    from n have "find (\<lambda>l. PurePath (pe_dest l) = re_path r) to_create = None"
      by (simp add: find_None_iff)
    moreover from r assms(1) have "under (re_path r) (PurePath remote_path)" by blast
    ultimately show ?thesis
      using r assms(2) by (simp add: decides_delete_def ignored_iff)
  qed
  with get_entries_to_delete_filter [OF assms] show ?thesis by simp
qed

lemma sample_under:
  "\<forall>r\<in>set [remote_old, remote_config, remote_kept]. under (re_path r) (PurePath ''/opt/app'')"
  by code_simp

lemma sample_ignore_under:
  "\<forall>i\<in>set [PurePath ''keep'', PurePath ''/opt/app/data'']. is_absolute i \<longrightarrow> under i (PurePath ''/opt/app'')"
  by code_simp

theorem unmatched_deleted_iff_exclusive_and_not_ignored_witness:
  "get_entries_to_delete sample_to_create [remote_old, remote_config, remote_kept] ''/opt/app''
      True [PurePath ''keep'', PurePath ''/opt/app/data''] = Inr [remote_old, remote_config]
   \<and> list_all (\<lambda>p. PurePath (pe_dest p) \<noteq> re_path remote_old) sample_to_create
   \<and> list_all (\<lambda>p. PurePath (pe_dest p) \<noteq> re_path remote_kept) sample_to_create
   \<and> \<not> ignored ''/opt/app'' [PurePath ''keep'', PurePath ''/opt/app/data''] remote_old
   \<and> ignored ''/opt/app'' [PurePath ''keep'', PurePath ''/opt/app/data''] remote_kept
   \<and> get_entries_to_delete sample_to_create [remote_old, remote_config, remote_kept] ''/opt/app''
      False [PurePath ''keep'', PurePath ''/opt/app/data''] = Inr [remote_config]"
proof -
  let ?rs = "[remote_old, remote_config, remote_kept]"
  let ?ig = "[PurePath ''keep'', PurePath ''/opt/app/data'']"
  have n: "\<forall>p\<in>set sample_to_create. PurePath (pe_dest p) \<noteq> re_path remote_old"
          "\<forall>p\<in>set sample_to_create. PurePath (pe_dest p) \<noteq> re_path remote_kept"
    by code_simp+
  have i: "\<not> ignored ''/opt/app'' ?ig remote_old" "ignored ''/opt/app'' ?ig remote_kept"
    by code_simp+
  have d: "remote_old \<noteq> remote_kept" "remote_config \<noteq> remote_kept" "remote_old \<noteq> remote_config"
    by code_simp+
  from unmatched_deleted_iff_exclusive_and_not_ignored
         [OF sample_under sample_ignore_under, of sample_to_create True]
  obtain td where t: "get_entries_to_delete sample_to_create ?rs ''/opt/app'' True ?ig = Inr td"
    and "remote_old \<in> set td \<longleftrightarrow> \<not> ignored ''/opt/app'' ?ig remote_old"
    and "remote_kept \<in> set td \<longleftrightarrow> \<not> ignored ''/opt/app'' ?ig remote_kept"
    using n by auto
  with i have m: "remote_old \<in> set td" "remote_kept \<notin> set td" by simp_all
  have e: "get_entries_to_delete sample_to_create ?rs ''/opt/app'' True ?ig
             = Inr [remote_old, remote_config]"
    by code_simp
  have f: "get_entries_to_delete sample_to_create ?rs ''/opt/app'' False ?ig
             = Inr [remote_config]"
    by code_simp
  from t m n i e f show ?thesis by (simp add: list_all_iff)
qed


text \<open>
  Without that condition the equivalence fails: with \<^verbatim>\<open>exclusive\<close> set and the ignore path
  \<^verbatim>\<open>/etc\<close>, the stray file \<^verbatim>\<open>/opt/app/old.txt\<close> is matched by no planned entry and is not
  below an ignore path, yet it is not queued: the reconciler raises, and the run makes no
  delete call.
\<close>

theorem ignore_outside_root_nothing_queued_counterexample:
  "get_entries_to_delete sample_to_create [remote_old, remote_config] ''/opt/app'' True
      [PurePath ''/etc''] = Inl ValueError
   \<and> local_match sample_to_create remote_old = None
   \<and> \<not> ignored ''/opt/app'' [PurePath ''/etc''] remote_old
   \<and> run sample_env (sample_args(''exclusive_ignore'' \<mapsto> AStr ''/etc''))
       = (Raised ValueError, [])"
  by code_simp

lemma entry_to_create_state:
  assumes "entry_to_create remote_path owner grp fm dm e = Inr (Some p)"
  shows "pe_state p = ''file'' \<or> pe_state p = ''directory''"
  using assms
  by (auto simp: entry_to_create_def Let_def split: if_splits option.splits)

lemma get_entries_to_create_states:
  assumes "get_entries_to_create les remote_path owner grp fm dm = Inr tc"
  shows "\<forall>p\<in>set tc. pe_state p = ''file'' \<or> pe_state p = ''directory''"
  using assms
proof (induction les arbitrary: tc)
  case Nil
  then show ?case by simp
next
  case (Cons e les)
  show ?case
  proof (cases "entry_to_create remote_path owner grp fm dm e")
    case (Inl a)
    with Cons.prems show ?thesis by simp
  next
    case (Inr x)
    show ?thesis
    proof (cases x)
      case None
      with Inr Cons show ?thesis by simp
    next
      case (Some p)
      with Inr Cons.prems obtain tc' where
        r: "get_entries_to_create les remote_path owner grp fm dm = Inr tc'" and t: "tc = p # tc'"
        by (auto split: sum.splits)
      from Inr Some have "pe_state p = ''file'' \<or> pe_state p = ''directory''"
        by (auto dest: entry_to_create_state)
      with Cons.IH [OF r] t show ?thesis by simp
    qed
  qed
qed

lemma set_file_contents_map:
  assumes "set_file_contents E tc0 = Inr tc"
  shows "map pe_state tc = map pe_state tc0 \<and> map pe_dest tc = map pe_dest tc0"
  using assms
  by (induction tc0 arbitrary: tc) (auto split: if_splits option.splits sum.splits)

lemma planned_states:
  assumes "get_entries_to_create les remote_path owner grp fm dm = Inr tc0"
      and "set_file_contents E tc0 = Inr tc"
      and "p \<in> set tc"
  shows "pe_state p = ''file'' \<or> pe_state p = ''directory''"
proof -
  from assms(2) have "map pe_state tc = map pe_state tc0" by (simp add: set_file_contents_map)
  then have "pe_state ` set tc = pe_state ` set tc0" by (metis set_map)
  with assms(3) obtain q where q: "q \<in> set tc0" "pe_state q = pe_state p"
    by (metis imageE imageI)
  from get_entries_to_create_states [OF assms(1)] q(1)
  have "pe_state q = ''file'' \<or> pe_state q = ''directory''" ..
  with q(2) show ?thesis by simp
qed

lemma kinds_match_state:
  assumes "pe_state p = ''file'' \<or> pe_state p = ''directory''"
  shows "kinds_match p r \<longleftrightarrow> pe_state p = remote_state r"
  using assms by (auto simp: kinds_match_def remote_state_def)

lemma kinds_match_imp_state: "kinds_match p r \<Longrightarrow> pe_state p = remote_state r"
  by (auto simp: kinds_match_def remote_state_def)

text \<open>
  Claim C3, with the planned entry made precise. The reconciler compares a remote entry
  with the first planned entry whose destination path equals the entry's path. When the
  delete set is computed (all listed entries and all absolute ignore paths lie below the
  destination root) and the kind of that first planned entry does not match the kind of
  the remote entry, the remote entry is in the delete set, for every value of
  \<^verbatim>\<open>exclusive\<close> and of \<^verbatim>\<open>exclusive_ignore\<close>. The planned entries are those the path
  mapper and the content resolver produce.
\<close>

theorem mismatched_first_match_deleted:
  assumes "\<forall>r\<in>set remote_entries. under (re_path r) (PurePath remote_path)"
      and "\<forall>i\<in>set exclusive_ignore. is_absolute i \<longrightarrow> under i (PurePath remote_path)"
      and "get_entries_to_create les remote_path owner grp fm dm = Inr tc0"
      and "set_file_contents E tc0 = Inr to_create"
      and "r \<in> set remote_entries"
      and "local_match to_create r = Some p"
      and "\<not> kinds_match p r"
  shows "\<exists>to_delete.
           get_entries_to_delete to_create remote_entries remote_path exclusive exclusive_ignore
             = Inr to_delete
           \<and> r \<in> set to_delete"
proof -
  from assms(6) have "p \<in> set to_create"
    by (auto simp: local_match_def find_Some_iff)
  then have "pe_state p = ''file'' \<or> pe_state p = ''directory''"
    by (rule planned_states [OF assms(3,4)])
  with assms(7) have "pe_state p \<noteq> remote_state r" by (simp add: kinds_match_state)
  with assms(6) have "decides_delete to_create remote_path exclusive
         (map (relativised remote_path) exclusive_ignore) r"
    by (simp add: decides_delete_def local_match_def)
  with assms(5) get_entries_to_delete_filter [OF assms(1,2)] show ?thesis by simp
qed

text \<open>
  Claim C4, with the planned entry made precise. A remote entry in the delete set is not
  matched by a planned entry of the same kind, where the planned entry matched is the
  first one in \<^verbatim>\<open>to_create\<close> with the entry's path as destination path. When the destination
  paths of \<^verbatim>\<open>to_create\<close> are pairwise distinct, no planned entry at all has the path and
  the kind of a remote entry in the delete set.
\<close>

theorem matched_same_kind_not_deleted:
  assumes "get_entries_to_delete to_create remote_entries remote_path exclusive exclusive_ignore
             = Inr to_delete"
      and "r \<in> set to_delete"
  shows "(\<forall>p. local_match to_create r = Some p \<longrightarrow> \<not> kinds_match p r)
         \<and> (distinct (map (\<lambda>p. PurePath (pe_dest p)) to_create) \<longrightarrow>
              (\<forall>p\<in>set to_create. PurePath (pe_dest p) = re_path r \<longrightarrow> \<not> kinds_match p r))"
proof -
  from get_entries_to_delete_Inr_filter [OF assms(1)] obtain ign' where
    "to_delete = filter (decides_delete to_create remote_path exclusive ign') remote_entries"
    by blast
  with assms(2) have d: "decides_delete to_create remote_path exclusive ign' r" by simp
  have first: "\<not> kinds_match p r" if "local_match to_create r = Some p" for p
    using d that by (auto simp: decides_delete_def local_match_def dest: kinds_match_imp_state)
  have "\<not> kinds_match p r"
    if dis: "distinct (map (\<lambda>p. PurePath (pe_dest p)) to_create)"
      and p: "p \<in> set to_create" "PurePath (pe_dest p) = re_path r" for p
  proof -
    from p obtain q where q: "local_match to_create r = Some q"
      by (cases "local_match to_create r") (auto simp: local_match_def find_None_iff)
    then have "q \<in> set to_create" "PurePath (pe_dest q) = re_path r"
      by (auto simp: local_match_def find_Some_iff)
    with dis p have "q = p"
      by (metis distinct_map inj_onD)
    with first q show ?thesis by simp
  qed
  with first show ?thesis by blast
qed


theorem mismatched_first_match_deleted_witness:
  "local_match sample_to_create remote_config
     = Some (sample_file ''/opt/app/config.yml'' ''/role/files/app/config.yml'')
   \<and> \<not> kinds_match (sample_file ''/opt/app/config.yml'' ''/role/files/app/config.yml'')
          remote_config
   \<and> (\<exists>to_delete.
         get_entries_to_delete sample_to_create [remote_old, remote_config, remote_kept]
           ''/opt/app'' False [PurePath ''config.yml''] = Inr to_delete
         \<and> remote_config \<in> set to_delete)"
proof -
  let ?rs = "[remote_old, remote_config, remote_kept]"
  let ?p = "sample_file ''/opt/app/config.yml'' ''/role/files/app/config.yml''"
  have h1: "\<forall>r\<in>set ?rs. under (re_path r) (PurePath ''/opt/app'')"
    by code_simp
  have h2: "\<forall>i\<in>set [PurePath ''config.yml'']. is_absolute i \<longrightarrow> under i (PurePath ''/opt/app'')"
    by code_simp
  have h3: "get_entries_to_create (get_local_entries sample_env [''app/'']) ''/opt/app''
              ANone ANone ANone ANone
            = Inr [sample_dir ''/opt/app'', ?p\<lparr>pe_content := None\<rparr>, sample_dir ''/opt/app/data'']"
    by code_simp
  have h4: "set_file_contents sample_env
              [sample_dir ''/opt/app'', ?p\<lparr>pe_content := None\<rparr>, sample_dir ''/opt/app/data'']
            = Inr sample_to_create"
    by code_simp
  have h5: "remote_config \<in> set ?rs" by simp
  have h6: "local_match sample_to_create remote_config = Some ?p" by code_simp
  have h7: "\<not> kinds_match ?p remote_config" by code_simp
  from mismatched_first_match_deleted [OF h1 h2 h3 h4 h5 h6 h7, of False] h6 h7
  show ?thesis by simp
qed

text \<open>
  With the roots \<^verbatim>\<open>y/f\<close> (a directory) and \<^verbatim>\<open>x/f\<close> (a regular file) the plan holds a
  directory and a file at \<^verbatim>\<open>/opt/app/f\<close>. The remote directory \<^verbatim>\<open>/opt/app/f\<close> has the
  path of the planned file and another kind, and the delete set is empty: the planned
  directory comes first.
\<close>

theorem mismatch_not_deleted_counterexample:
  "run_plan clash_env dir_first_args
     = Inr ([], [sample_dir ''/opt/app/f'', sample_file ''/opt/app/f'' ''/role/files/x/f''])
   \<and> get_remote_entries clash_env ''/opt/app'' = Inr [remote_f]
   \<and> PurePath (pe_dest (sample_file ''/opt/app/f'' ''/role/files/x/f'')) = re_path remote_f
   \<and> \<not> kinds_match (sample_file ''/opt/app/f'' ''/role/files/x/f'') remote_f"
  by code_simp

theorem matched_same_kind_not_deleted_witness:
  "get_entries_to_delete sample_to_create [remote_old, remote_config, remote_data]
      ''/opt/app'' True [] = Inr [remote_old, remote_config]
   \<and> local_match sample_to_create remote_config
        = Some (sample_file ''/opt/app/config.yml'' ''/role/files/app/config.yml'')
   \<and> distinct (map (\<lambda>p. PurePath (pe_dest p)) sample_to_create)
   \<and> \<not> kinds_match (sample_file ''/opt/app/config.yml'' ''/role/files/app/config.yml'')
          remote_config"
proof -
  let ?p = "sample_file ''/opt/app/config.yml'' ''/role/files/app/config.yml''"
  have h1: "get_entries_to_delete sample_to_create [remote_old, remote_config, remote_data]
              ''/opt/app'' True [] = Inr [remote_old, remote_config]"
    by code_simp
  have h2: "remote_config \<in> set [remote_old, remote_config]" by simp
  have h3: "local_match sample_to_create remote_config = Some ?p" by code_simp
  have h4: "distinct (map (\<lambda>p. PurePath (pe_dest p)) sample_to_create)" by code_simp
  from matched_same_kind_not_deleted [OF h1 h2] h3
  have "\<not> kinds_match ?p remote_config" by blast
  with h1 h3 h4 show ?thesis by simp
qed

text \<open>
  With the roots in the other order the planned file comes first: the remote directory
  \<^verbatim>\<open>/opt/app/f\<close> is in the delete set although a planned directory has its path.
\<close>

theorem same_kind_deleted_counterexample:
  "run_plan clash_env file_first_args
     = Inr ([remote_f], [sample_file ''/opt/app/f'' ''/role/files/x/f'', sample_dir ''/opt/app/f''])
   \<and> PurePath (pe_dest (sample_dir ''/opt/app/f'')) = re_path remote_f
   \<and> kinds_match (sample_dir ''/opt/app/f'') remote_f"
  by code_simp


subsection \<open>The executor\<close>

lemma delete_entries_perform:
  "delete_entries E ds calls = perform E (map delete_op ds) calls"
  by (induction ds arbitrary: calls) (simp_all add: Let_def)

lemma create_entries_perform:
  assumes "\<forall>p\<in>set tc. create_op p \<noteq> None"
  shows "create_entries E tc previous calls = perform E (List.map_filter create_op tc) calls"
  using assms
proof (induction tc arbitrary: previous calls)
  case Nil
  then show ?case by (simp add: map_filter_simps)
next
  case (Cons p tc)
  then obtain c where c: "create_op p = Some c" by auto
  from Cons have "\<And>previous calls.
      create_entries E tc previous calls = perform E (List.map_filter create_op tc) calls"
    by simp
  with c show ?case by (simp add: map_filter_simps Let_def)
qed

lemma perform_append:
  "perform E (a @ b) calls =
     (case perform E a calls of
        (Inl e, calls') \<Rightarrow> (Inl e, calls')
      | (Inr results, calls') \<Rightarrow>
          (case perform E b calls' of
             (Inl e, calls'') \<Rightarrow> (Inl e, calls'')
           | (Inr results', calls'') \<Rightarrow> (Inr (results @ results'), calls'')))"
  by (induction a arbitrary: calls) (auto split: prod.splits sum.splits)

lemma perform_trace:
  "\<exists>n. snd (perform E cs calls) = calls @ take n cs"
proof (induction cs arbitrary: calls)
  case Nil
  then show ?case by simp
next
  case (Cons c cs)
  show ?case
  proof (cases "mr_failed (execute E calls c)")
    case True
    then have "snd (perform E (c # cs) calls) = calls @ take 1 (c # cs)" by simp
    then show ?thesis by blast
  next
    case False
    from Cons [of "calls @ [c]"] obtain n where
      "snd (perform E cs (calls @ [c])) = (calls @ [c]) @ take n cs" by blast
    with False have "snd (perform E (c # cs) calls) = calls @ take (Suc n) (c # cs)"
      by (auto split: prod.splits sum.splits)
    then show ?thesis by blast
  qed
qed

lemma perform_first_failure:
  assumes "i < length cs"
      and "\<forall>j<i. \<not> mr_failed (execute E (calls @ take j cs) (cs ! j))"
      and "mr_failed (execute E (calls @ take i cs) (cs ! i))"
  shows "perform E cs calls =
           (Inl (raise_failed (execute E (calls @ take i cs) (cs ! i))), calls @ take (Suc i) cs)"
  using assms
proof (induction cs arbitrary: i calls)
  case Nil
  then show ?case by simp
next
  case (Cons c cs)
  show ?case
  proof (cases i)
    case 0
    with Cons.prems show ?thesis by simp
  next
    case (Suc k)
    with Cons.prems(2) have nf: "\<not> mr_failed (execute E calls c)" by force
    from Suc Cons.prems(1) have k: "k < length cs" by simp
    have a: "\<forall>j<k. \<not> mr_failed (execute E ((calls @ [c]) @ take j cs) (cs ! j))"
    proof (intro allI impI)
      fix j assume "j < k"
      then have "Suc j < i" using Suc by simp
      with Cons.prems(2) have "\<not> mr_failed (execute E (calls @ take (Suc j) (c # cs)) ((c # cs) ! Suc j))"
        by blast
      then show "\<not> mr_failed (execute E ((calls @ [c]) @ take j cs) (cs ! j))" by simp
    qed
    from Cons.prems(3) Suc
    have b: "mr_failed (execute E ((calls @ [c]) @ take k cs) (cs ! k))" by simp
    from Cons.IH [OF k a b] nf Suc show ?thesis by simp
  qed
qed

lemma perform_all_succeed:
  assumes "\<forall>j<length cs. \<not> mr_failed (execute E (calls @ take j cs) (cs ! j))"
  shows "\<exists>results. perform E cs calls = (Inr results, calls @ cs)"
  using assms
proof (induction cs arbitrary: calls)
  case Nil
  then show ?case by simp
next
  case (Cons c cs)
  from Cons.prems have nf: "\<not> mr_failed (execute E calls c)" by force
  have "\<forall>j<length cs. \<not> mr_failed (execute E ((calls @ [c]) @ take j cs) (cs ! j))"
  proof (intro allI impI)
    fix j assume "j < length cs"
    then have "Suc j < length (c # cs)" by simp
    with Cons.prems have "\<not> mr_failed (execute E (calls @ take (Suc j) (c # cs)) ((c # cs) ! Suc j))"
      by blast
    then show "\<not> mr_failed (execute E ((calls @ [c]) @ take j cs) (cs ! j))" by simp
  qed
  from Cons.IH [OF this] obtain results where
    "perform E cs (calls @ [c]) = (Inr results, (calls @ [c]) @ cs)" by blast
  with nf show ?case by simp
qed

lemma run_apply_perform:
  assumes "\<forall>p\<in>set to_create. create_op p \<noteq> None"
  shows "run_apply E to_delete to_create =
     (case perform E (planned_calls to_delete to_create) [] of
        (Inl e, calls) \<Rightarrow> (Raised e, calls)
      | (Inr results, calls) \<Rightarrow>
          (case build_output base_output results of
             Inl e \<Rightarrow> (Raised e, calls)
           | Inr out \<Rightarrow> (Returned out, calls)))"
  using assms
  by (simp add: run_apply_def planned_calls_def delete_entries_perform create_entries_perform
        perform_append split: prod.splits sum.splits)


lemma str_of_argval_Some: "str_of_argval v = Some s \<longleftrightarrow> v = AStr s"
  by (cases v) auto

lemma run_plan_Inr:
  assumes "run_plan E args = Inr (to_delete, to_create)"
  shows "\<exists>remote_path local_paths ign remote_entries tc0.
           args ''dest'' = Some (AStr remote_path)
         \<and> local_paths_of (get_arg args ''src'' ANone) = Some local_paths
         \<and> parse_path_list args ''exclusive_ignore'' = Inr ign
         \<and> get_remote_entries E remote_path = Inr remote_entries
         \<and> get_entries_to_create (get_local_entries E local_paths) remote_path
              (get_arg args ''owner'' ANone) (get_arg args ''group'' ANone)
              (get_arg args ''file_mode'' ANone) (get_arg args ''directory_mode'' ANone) = Inr tc0
         \<and> set_file_contents E tc0 = Inr to_create
         \<and> get_entries_to_delete to_create remote_entries remote_path
              (truthy (get_arg args ''exclusive'' (ABool False))) ign = Inr to_delete"
proof -
  let ?owner = "get_arg args ''owner'' ANone" and ?grp = "get_arg args ''group'' ANone"
  let ?fm = "get_arg args ''file_mode'' ANone" and ?dm = "get_arg args ''directory_mode'' ANone"
  let ?ex = "truthy (get_arg args ''exclusive'' (ABool False))"
  from assms have s: "args ''src'' \<noteq> None"
    by (auto simp: run_plan_def split: if_splits)
  from assms s have d: "args ''dest'' \<noteq> None"
    by (auto simp: run_plan_def split: if_splits)
  from assms s d obtain ign where
    i: "parse_path_list args ''exclusive_ignore'' = Inr ign"
    by (cases "parse_path_list args ''exclusive_ignore''") (auto simp: run_plan_def Let_def)
  from assms s d i obtain remote_path where
    r: "str_of_argval (get_arg args ''dest'' ANone) = Some remote_path"
    by (cases "str_of_argval (get_arg args ''dest'' ANone)") (auto simp: run_plan_def Let_def)
  from assms s d i r obtain local_paths where
    l: "local_paths_of (get_arg args ''src'' ANone) = Some local_paths"
    by (cases "local_paths_of (get_arg args ''src'' ANone)") (auto simp: run_plan_def Let_def)
  from s d i r l have e: "run_plan E args =
      (case get_remote_entries E remote_path of
         Inl e \<Rightarrow> Inl (Raised e)
       | Inr remote_entries \<Rightarrow>
           (case get_entries_to_create (get_local_entries E local_paths) remote_path
                   ?owner ?grp ?fm ?dm of
              Inl e \<Rightarrow> Inl (Raised e)
            | Inr to_create0 \<Rightarrow>
                (case set_file_contents E to_create0 of
                   Inl e \<Rightarrow> Inl (Raised e)
                 | Inr to_create \<Rightarrow>
                     (case get_entries_to_delete to_create remote_entries remote_path ?ex ign of
                        Inl e \<Rightarrow> Inl (Raised e)
                      | Inr to_delete \<Rightarrow> Inr (to_delete, to_create)))))"
    by (auto simp: run_plan_def Let_def)
  from assms e obtain remote_entries where
    g: "get_remote_entries E remote_path = Inr remote_entries"
    by (cases "get_remote_entries E remote_path") auto
  from assms e g obtain tc0 where
    c: "get_entries_to_create (get_local_entries E local_paths) remote_path
          ?owner ?grp ?fm ?dm = Inr tc0"
    by (cases "get_entries_to_create (get_local_entries E local_paths) remote_path
                 ?owner ?grp ?fm ?dm") auto
  from assms e g c obtain tc where f: "set_file_contents E tc0 = Inr tc"
    by (cases "set_file_contents E tc0") auto
  from assms e g c f obtain td where
    t: "get_entries_to_delete tc remote_entries remote_path ?ex ign = Inr td"
    by (cases "get_entries_to_delete tc remote_entries remote_path ?ex ign") auto
  from assms e g c f t have "td = to_delete" "tc = to_create" by auto
  moreover from r d have "args ''dest'' = Some (AStr remote_path)"
    by (auto simp: str_of_argval_Some get_arg_def)
  ultimately show ?thesis using l i g c f t by blast
qed

lemma get_entries_to_create_map_filter:
  assumes "get_entries_to_create les remote_path owner grp fm dm = Inr tc"
  shows "tc = List.map_filter (mapped_entry remote_path owner grp fm dm) les"
  using assms
  by (induction les arbitrary: tc)
     (auto simp: map_filter_simps mapped_entry_def split: sum.splits option.splits)

lemma entry_to_create_content:
  assumes "entry_to_create remote_path owner grp fm dm e = Inr (Some p)"
  shows "pe_content p = None"
  using assms
  by (auto simp: entry_to_create_def Let_def split: if_splits option.splits)

lemma get_entries_to_create_content:
  assumes "get_entries_to_create les remote_path owner grp fm dm = Inr tc"
  shows "\<forall>p\<in>set tc. pe_content p = None"
  using assms
  by (induction les arbitrary: tc)
     (auto split: sum.splits option.splits dest: entry_to_create_content)

lemma content_reset:
  "pe_content f = None \<Longrightarrow> f\<lparr>pe_content := Some c\<rparr>\<lparr>pe_content := None\<rparr> = f"
  by (cases f) simp

lemma content_reset_id: "pe_content f = None \<Longrightarrow> f\<lparr>pe_content := None\<rparr> = f"
  by (cases f) simp

lemma set_file_contents_only_content:
  assumes "set_file_contents E tc0 = Inr tc" and "\<forall>p\<in>set tc0. pe_content p = None"
  shows "map (\<lambda>p. p\<lparr>pe_content := None\<rparr>) tc = tc0"
  using assms
proof (induction tc0 arbitrary: tc)
  case Nil
  then show ?case by simp
next
  case (Cons f rest)
  from Cons.prems(2) have fn: "pe_content f = None" and rn: "\<forall>p\<in>set rest. pe_content p = None"
    by simp_all
  show ?case
  proof (cases "pe_state f = ''file''")
    case True
    with Cons.prems(1) obtain c fs where
      r: "set_file_contents E rest = Inr fs" and t: "tc = f\<lparr>pe_content := Some c\<rparr> # fs"
      by (auto split: option.splits sum.splits)
    from Cons.IH [OF r rn] t fn show ?thesis by (simp add: content_reset)
  next
    case False
    with Cons.prems(1) obtain fs where
      r: "set_file_contents E rest = Inr fs" and t: "tc = f # fs"
      by (auto split: sum.splits)
    from Cons.IH [OF r rn] t fn show ?thesis by (simp add: content_reset_id)
  qed
qed


lemma create_op_defined:
  "pe_state p = ''file'' \<or> pe_state p = ''directory'' \<Longrightarrow> create_op p \<noteq> None"
  by (auto simp: create_op_def)

lemma planned_create_op:
  assumes "get_entries_to_create les remote_path owner grp fm dm = Inr tc0"
      and "set_file_contents E tc0 = Inr tc"
  shows "\<forall>p\<in>set tc. create_op p \<noteq> None"
proof
  fix p assume "p \<in> set tc"
  then have "pe_state p = ''file'' \<or> pe_state p = ''directory''"
    by (rule planned_states [OF assms])
  then show "create_op p \<noteq> None" by (rule create_op_defined)
qed

lemma get_entries_to_delete_subseq:
  assumes "get_entries_to_delete to_create rs remote_path exclusive ign = Inr ds"
  shows "subseq ds rs"
proof -
  from get_entries_to_delete_Inr_filter [OF assms] obtain ign' where
    "ds = filter (decides_delete to_create remote_path exclusive ign') rs" by blast
  then show ?thesis by simp
qed

lemma run_planned_calls:
  assumes "run_plan E args = Inr (to_delete, to_create)"
  shows "run E args =
     (case perform E (planned_calls to_delete to_create) [] of
        (Inl e, calls) \<Rightarrow> (Raised e, calls)
      | (Inr results, calls) \<Rightarrow>
          (case build_output base_output results of
             Inl e \<Rightarrow> (Raised e, calls)
           | Inr out \<Rightarrow> (Returned out, calls)))"
proof -
  from run_plan_Inr [OF assms] obtain remote_path les owner grp fm dm tc0 where
    "get_entries_to_create les remote_path owner grp fm dm = Inr tc0"
    "set_file_contents E tc0 = Inr to_create"
    by blast
  then have "\<forall>p\<in>set to_create. create_op p \<noteq> None"
    by (rule planned_create_op)
  then show ?thesis using assms by (simp add: run_def run_apply_perform)
qed

text \<open>
  Claim C5. In a run that reaches the executor with the plan \<open>(to_delete, to_create)\<close>,
  the changing module calls made are an initial segment of: the delete calls of
  \<^verbatim>\<open>to_delete\<close> in order, followed by the create or update calls of \<^verbatim>\<open>to_create\<close> in
  order; so every delete comes before every create, and a create is made only after all
  deletes. \<^verbatim>\<open>to_delete\<close> is a subsequence of the destination listing, \<^verbatim>\<open>to_create\<close> holds
  the mapped local entries in the order \<^verbatim>\<open>_get_local_entries\<close> emitted them, every planned
  entry gives one call, and when no call fails all of them are made.
\<close>

theorem deletes_before_creates_in_order:
  assumes "run_plan E args = Inr (to_delete, to_create)"
  shows "(\<exists>n. snd (run E args)
               = take n (map delete_op to_delete @ List.map_filter create_op to_create))
       \<and> (\<exists>remote_path remote_entries.
             args ''dest'' = Some (AStr remote_path)
           \<and> get_remote_entries E remote_path = Inr remote_entries
           \<and> subseq to_delete remote_entries)
       \<and> (\<exists>remote_path local_paths.
             args ''dest'' = Some (AStr remote_path)
           \<and> local_paths_of (get_arg args ''src'' ANone) = Some local_paths
           \<and> map (\<lambda>p. p\<lparr>pe_content := None\<rparr>) to_create
               = List.map_filter
                   (mapped_entry remote_path (get_arg args ''owner'' ANone)
                      (get_arg args ''group'' ANone) (get_arg args ''file_mode'' ANone)
                      (get_arg args ''directory_mode'' ANone))
                   (get_local_entries E local_paths))
       \<and> length (List.map_filter create_op to_create) = length to_create
       \<and> ((\<forall>j<length (planned_calls to_delete to_create).
               \<not> mr_failed (execute E (take j (planned_calls to_delete to_create))
                                 (planned_calls to_delete to_create ! j)))
            \<longrightarrow> snd (run E args) = planned_calls to_delete to_create)"
proof -
  from perform_trace [of E "planned_calls to_delete to_create" "[]"] obtain n where
    "snd (perform E (planned_calls to_delete to_create) []) = take n (planned_calls to_delete to_create)"
    by auto
  then have 1: "snd (run E args) = take n (map delete_op to_delete @ List.map_filter create_op to_create)"
    by (auto simp: run_planned_calls [OF assms] planned_calls_def split: prod.splits sum.splits)
  from run_plan_Inr [OF assms] obtain remote_path local_paths ign remote_entries tc0 where
    d: "args ''dest'' = Some (AStr remote_path)"
    and l: "local_paths_of (get_arg args ''src'' ANone) = Some local_paths"
    and r: "get_remote_entries E remote_path = Inr remote_entries"
    and c: "get_entries_to_create (get_local_entries E local_paths) remote_path
              (get_arg args ''owner'' ANone) (get_arg args ''group'' ANone)
              (get_arg args ''file_mode'' ANone) (get_arg args ''directory_mode'' ANone) = Inr tc0"
    and f: "set_file_contents E tc0 = Inr to_create"
    and t: "get_entries_to_delete to_create remote_entries remote_path
              (truthy (get_arg args ''exclusive'' (ABool False))) ign = Inr to_delete"
    by blast
  from t have 2: "subseq to_delete remote_entries" by (rule get_entries_to_delete_subseq)
  from f get_entries_to_create_content [OF c]
  have "map (\<lambda>p. p\<lparr>pe_content := None\<rparr>) to_create = tc0"
    by (rule set_file_contents_only_content)
  with get_entries_to_create_map_filter [OF c]
  have 3: "map (\<lambda>p. p\<lparr>pe_content := None\<rparr>) to_create
             = List.map_filter
                   (mapped_entry remote_path (get_arg args ''owner'' ANone)
                      (get_arg args ''group'' ANone) (get_arg args ''file_mode'' ANone)
                      (get_arg args ''directory_mode'' ANone))
                   (get_local_entries E local_paths)"
    by simp
  have "\<forall>p\<in>set to_create. create_op p \<noteq> None"
    using c f by (rule planned_create_op)
  then have 4: "length (List.map_filter create_op to_create) = length to_create"
    by (induction to_create) (auto simp: map_filter_simps)
  have 5: "snd (run E args) = planned_calls to_delete to_create"
    if a: "\<forall>j<length (planned_calls to_delete to_create).
               \<not> mr_failed (execute E (take j (planned_calls to_delete to_create))
                                 (planned_calls to_delete to_create ! j))"
  proof -
    from a have "\<forall>j<length (planned_calls to_delete to_create).
               \<not> mr_failed (execute E ([] @ take j (planned_calls to_delete to_create))
                                 (planned_calls to_delete to_create ! j))"
      by simp
    from perform_all_succeed [OF this] obtain results where
      "perform E (planned_calls to_delete to_create) []
         = (Inr results, planned_calls to_delete to_create)"
      by auto
    then show ?thesis
      by (simp add: run_planned_calls [OF assms] split: sum.splits)
  qed
  from 1 2 3 4 5 d l r show ?thesis by blast
qed

text \<open>
  Claim C6. When the call at position \<open>i\<close> of the planned sequence (deletes, then
  creates) is the first whose result reports failure, the run raises an
  \<^verbatim>\<open>AnsibleError\<close> with the message of that result (a \<^verbatim>\<open>KeyError\<close> when the result has no
  message) and the calls made are exactly the first \<open>i + 1\<close> planned calls: nothing is
  called after the failure, and nothing is called to undo the calls before it.
\<close>

theorem failed_operation_aborts_run:
  assumes "run_plan E args = Inr (to_delete, to_create)"
      and "calls = map delete_op to_delete @ List.map_filter create_op to_create"
      and "i < length calls"
      and "\<forall>j<i. \<not> mr_failed (execute E (take j calls) (calls ! j))"
      and "mr_failed (execute E (take i calls) (calls ! i))"
  shows "run E args =
           (Raised (case mr_msg (execute E (take i calls) (calls ! i)) of
                      Some m \<Rightarrow> AnsibleError m
                    | None \<Rightarrow> KeyError ''msg''),
            take (Suc i) calls)"
proof -
  from assms(2) have c: "planned_calls to_delete to_create = calls"
    by (simp add: planned_calls_def)
  from assms(4) have "\<forall>j<i. \<not> mr_failed (execute E ([] @ take j calls) (calls ! j))" by simp
  moreover from assms(5) have "mr_failed (execute E ([] @ take i calls) (calls ! i))" by simp
  ultimately have "perform E calls [] =
      (Inl (raise_failed (execute E ([] @ take i calls) (calls ! i))), [] @ take (Suc i) calls)"
    using assms(3) by (intro perform_first_failure)
  then show ?thesis
    by (simp add: run_planned_calls [OF assms(1)] c raise_failed_def)
qed


theorem deletes_before_creates_in_order_witness:
  "run_plan sample_env sample_args = Inr ([remote_old, remote_config], sample_to_create)
   \<and> (\<exists>n. snd (run sample_env sample_args)
             = take n (map delete_op [remote_old, remote_config]
                        @ List.map_filter create_op sample_to_create))
   \<and> snd (run sample_env sample_args)
        = [OpAbsent ''/opt/app/old.txt'', OpAbsent ''/opt/app/config.yml'',
           OpDirectory (sample_dir ''/opt/app''),
           OpCopy (sample_file ''/opt/app/config.yml'' ''/role/files/app/config.yml''),
           OpDirectory (sample_dir ''/opt/app/data'')]"
proof -
  have h: "run_plan sample_env sample_args = Inr ([remote_old, remote_config], sample_to_create)"
    by code_simp
  have e: "snd (run sample_env sample_args)
        = [OpAbsent ''/opt/app/old.txt'', OpAbsent ''/opt/app/config.yml'',
           OpDirectory (sample_dir ''/opt/app''),
           OpCopy (sample_file ''/opt/app/config.yml'' ''/role/files/app/config.yml''),
           OpDirectory (sample_dir ''/opt/app/data'')]"
    by code_simp
  from deletes_before_creates_in_order [OF h]
  have "\<exists>n. snd (run sample_env sample_args)
             = take n (map delete_op [remote_old, remote_config]
                        @ List.map_filter create_op sample_to_create)"
    by (rule conjunct1)
  with h e show ?thesis by simp
qed

theorem failed_operation_aborts_run_witness:
  "run failing_env sample_args
     = (Raised (AnsibleError ''permission denied''),
        [OpAbsent ''/opt/app/old.txt'', OpAbsent ''/opt/app/config.yml''])"
proof -
  let ?calls = "map delete_op [remote_old, remote_config]
                  @ List.map_filter create_op sample_to_create"
  have h1: "run_plan failing_env sample_args = Inr ([remote_old, remote_config], sample_to_create)"
    by code_simp
  have c: "?calls
        = [OpAbsent ''/opt/app/old.txt'', OpAbsent ''/opt/app/config.yml'',
           OpDirectory (sample_dir ''/opt/app''),
           OpCopy (sample_file ''/opt/app/config.yml'' ''/role/files/app/config.yml''),
           OpDirectory (sample_dir ''/opt/app/data'')]"
    by code_simp
  have h3: "1 < length ?calls" unfolding c by simp
  have h4: "\<forall>j<1. \<not> mr_failed (execute failing_env (take j ?calls) (?calls ! j))"
    unfolding c by (simp add: failing_env_def ok_result_def)
  have h5: "mr_failed (execute failing_env (take 1 ?calls) (?calls ! 1))"
    unfolding c by (simp add: failing_env_def failed_result_def)
  have m: "execute failing_env (take 1 ?calls) (?calls ! 1) = failed_result"
    unfolding c by (simp add: failing_env_def)
  from failed_operation_aborts_run [OF h1 refl h3 h4 h5]
  show ?thesis unfolding m unfolding c by (simp add: failed_result_def)
qed


subsection \<open>Ignore paths outside the destination root\<close>

lemma get_entries_to_delete_bad_ignore:
  assumes "i \<in> set ign" "is_absolute i" "\<not> under i (PurePath remote_path)"
  shows "get_entries_to_delete to_create rs remote_path exclusive ign = Inl ValueError"
  using assms by (simp add: get_entries_to_delete_def rewrite_ignore_fails)

text \<open>
  Claim C10. When \<^verbatim>\<open>exclusive_ignore\<close> holds an absolute path that is neither the
  destination root nor below it, the run raises and makes no delete and no create or
  update call. When the listing, the path mapping and the content resolution succeed, the
  exception is the \<^verbatim>\<open>ValueError\<close> of \<^verbatim>\<open>relative_to\<close>, raised while the delete set is
  computed, not an \<^verbatim>\<open>AnsibleError\<close>.
\<close>

theorem ignore_path_outside_root_raises:
  assumes "args ''dest'' = Some (AStr remote_path)"
      and "args ''src'' = Some sv"
      and "local_paths_of sv = Some local_paths"
      and "parse_path_list args ''exclusive_ignore'' = Inr ign"
      and "i \<in> set ign"
      and "is_absolute i"
      and "\<not> under i (PurePath remote_path)"
  shows "snd (run E args) = []
       \<and> (\<exists>e. fst (run E args) = Raised e)
       \<and> ((\<exists>remote_entries tc0 to_create.
              get_remote_entries E remote_path = Inr remote_entries
            \<and> get_entries_to_create (get_local_entries E local_paths) remote_path
                 (get_arg args ''owner'' ANone) (get_arg args ''group'' ANone)
                 (get_arg args ''file_mode'' ANone) (get_arg args ''directory_mode'' ANone)
                 = Inr tc0
            \<and> set_file_contents E tc0 = Inr to_create)
           \<longrightarrow> fst (run E args) = Raised ValueError)"
proof -
  let ?owner = "get_arg args ''owner'' ANone" and ?grp = "get_arg args ''group'' ANone"
  let ?fm = "get_arg args ''file_mode'' ANone" and ?dm = "get_arg args ''directory_mode'' ANone"
  let ?ex = "truthy (get_arg args ''exclusive'' (ABool False))"
  let ?les = "get_local_entries E local_paths"
  from assms(1,2) have ga: "get_arg args ''dest'' ANone = AStr remote_path"
      "get_arg args ''src'' ANone = sv"
    by (simp_all add: get_arg_def)
  from assms(1,2,3,4) ga have e: "run_plan E args =
      (case get_remote_entries E remote_path of
         Inl e \<Rightarrow> Inl (Raised e)
       | Inr remote_entries \<Rightarrow>
           (case get_entries_to_create ?les remote_path ?owner ?grp ?fm ?dm of
              Inl e \<Rightarrow> Inl (Raised e)
            | Inr to_create0 \<Rightarrow>
                (case set_file_contents E to_create0 of
                   Inl e \<Rightarrow> Inl (Raised e)
                 | Inr to_create \<Rightarrow>
                     (case get_entries_to_delete to_create remote_entries remote_path ?ex ign of
                        Inl e \<Rightarrow> Inl (Raised e)
                      | Inr to_delete \<Rightarrow> Inr (to_delete, to_create)))))"
    by (simp add: run_plan_def Let_def)
  have d: "get_entries_to_delete tc rs remote_path ?ex ign = Inl ValueError" for tc rs
    using assms(5,6,7) by (rule get_entries_to_delete_bad_ignore)
  have p: "\<exists>x. run_plan E args = Inl (Raised x)"
    unfolding e by (simp add: d split: sum.splits)
  then have 1: "snd (run E args) = []" and 2: "\<exists>x. fst (run E args) = Raised x"
    by (auto simp: run_def)
  have 3: "fst (run E args) = Raised ValueError"
    if "get_remote_entries E remote_path = Inr remote_entries"
       "get_entries_to_create ?les remote_path ?owner ?grp ?fm ?dm = Inr tc0"
       "set_file_contents E tc0 = Inr to_create" for remote_entries tc0 to_create
    using that by (simp add: run_def e d)
  from 1 2 3 show ?thesis by blast
qed

theorem ignore_path_outside_root_raises_witness:
  "parse_path_list (sample_args(''exclusive_ignore'' \<mapsto> AList [AStr ''keep'', AStr ''/etc'']))
      ''exclusive_ignore'' = Inr [PurePath ''keep'', PurePath ''/etc'']
   \<and> is_absolute (PurePath ''/etc'')
   \<and> \<not> under (PurePath ''/etc'') (PurePath ''/opt/app'')
   \<and> run sample_env (sample_args(''exclusive_ignore'' \<mapsto> AList [AStr ''keep'', AStr ''/etc'']))
       = (Raised ValueError, [])"
proof -
  let ?args = "sample_args(''exclusive_ignore'' \<mapsto> AList [AStr ''keep'', AStr ''/etc''])"
  let ?p = "sample_file ''/opt/app/config.yml'' ''/role/files/app/config.yml''"
  have h1: "?args ''dest'' = Some (AStr ''/opt/app'')" by (simp add: sample_args_def)
  have h2: "?args ''src'' = Some (AList [AStr ''app/''])" by (simp add: sample_args_def)
  have h3: "local_paths_of (AList [AStr ''app/'']) = Some [''app/'']"
    by (simp add: local_paths_of_def)
  have h4: "parse_path_list ?args ''exclusive_ignore'' = Inr [PurePath ''keep'', PurePath ''/etc'']"
    by (simp add: parse_path_list_def get_arg_def)
  have h5: "PurePath ''/etc'' \<in> set [PurePath ''keep'', PurePath ''/etc'']" by simp
  have h6: "is_absolute (PurePath ''/etc'')" by code_simp
  have h7: "\<not> under (PurePath ''/etc'') (PurePath ''/opt/app'')" by code_simp
  have g: "get_remote_entries sample_env ''/opt/app'' = Inr [remote_old, remote_config]"
    by code_simp
  have c: "get_entries_to_create (get_local_entries sample_env [''app/'']) ''/opt/app''
              (get_arg ?args ''owner'' ANone) (get_arg ?args ''group'' ANone)
              (get_arg ?args ''file_mode'' ANone) (get_arg ?args ''directory_mode'' ANone)
            = Inr [sample_dir ''/opt/app'', ?p\<lparr>pe_content := None\<rparr>, sample_dir ''/opt/app/data'']"
    by code_simp
  have f: "set_file_contents sample_env
              [sample_dir ''/opt/app'', ?p\<lparr>pe_content := None\<rparr>, sample_dir ''/opt/app/data'']
            = Inr sample_to_create"
    by code_simp
  from ignore_path_outside_root_raises [OF h1 h2 h3 h4 h5 h6 h7, of sample_env] g c f
  have "snd (run sample_env ?args) = []" "fst (run sample_env ?args) = Raised ValueError"
    by blast+
  then have "run sample_env ?args = (Raised ValueError, [])"
    by (simp add: prod_eq_iff)
  with h4 h6 h7 show ?thesis by simp
qed


subsection \<open>The path mapper\<close>

lemma parts_PurePath: "parts (PurePath s) = filter seg_ok (split_sep s)"
  by (simp add: PurePath_def seg_ok_def)

lemma split_sep_append_sep:
  "split_sep (a @ CHR ''/'' # b) = split_sep a @ split_sep b"
proof (induction a)
  case Nil
  show ?case by simp
next
  case (Cons c a)
  obtain w ws where w: "split_sep a = w # ws"
    using split_sep_nonempty [of a] by (cases "split_sep a") auto
  with Cons show ?case by simp
qed

lemma split_sep_no_sep: "CHR ''/'' \<notin> set s \<Longrightarrow> split_sep s = [s]"
  by (induction s) auto

lemma split_sep_pieces: "x \<in> set (split_sep s) \<Longrightarrow> CHR ''/'' \<notin> set x"
proof (induction s arbitrary: x)
  case Nil
  then show ?case by simp
next
  case (Cons c s)
  obtain w ws where w: "split_sep s = w # ws"
    using split_sep_nonempty [of s] by (cases "split_sep s") auto
  show ?case
  proof (cases "c = CHR ''/''")
    case True
    with Cons show ?thesis by auto
  next
    case False
    with Cons.prems w have "x = c # w \<or> x \<in> set ws" by simp
    then show ?thesis
    proof
      assume "x = c # w"
      moreover from w Cons.IH [of w] have "CHR ''/'' \<notin> set w" by simp
      ultimately show ?thesis using False by simp
    next
      assume "x \<in> set ws"
      with w Cons.IH [of x] show ?thesis by simp
    qed
  qed
qed

lemma split_sep_join_sep:
  assumes "xs \<noteq> []" and "\<forall>x\<in>set xs. CHR ''/'' \<notin> set x"
  shows "split_sep (join_sep xs) = xs"
  using assms
proof (induction xs rule: join_sep.induct)
  case 1
  then show ?case by simp
next
  case (2 c)
  then show ?case by (simp add: split_sep_no_sep)
next
  case (3 c d cs)
  then show ?case by (simp add: split_sep_append_sep split_sep_no_sep)
qed

lemma initial_slashes_leading:
  "initial_slashes_of s = (if leading s = 0 then 0 else if leading s = 2 then 2 else 1)"
proof (cases s)
  case Nil
  then show ?thesis by (simp add: initial_slashes_of_def startswith_def leading_def)
next
  case s1: (Cons a t)
  show ?thesis
  proof (cases t)
    case Nil
    with s1 show ?thesis by (simp add: initial_slashes_of_def startswith_def leading_def)
  next
    case s2: (Cons b u)
    show ?thesis
    proof (cases u)
      case Nil
      with s1 s2 show ?thesis by (simp add: initial_slashes_of_def startswith_def leading_def)
    next
      case (Cons c v)
      with s1 s2 show ?thesis by (simp add: initial_slashes_of_def startswith_def leading_def)
    qed
  qed
qed

lemma startswith_sep_leading: "startswith s ''/'' \<longleftrightarrow> leading s \<noteq> 0"
  by (cases s) (simp_all add: startswith_def leading_def)

lemma takeWhile_sep_append:
  assumes "takeWhile (\<lambda>c. c = CHR ''/'') b = []"
  shows "takeWhile (\<lambda>c. c = CHR ''/'') (a @ b) = takeWhile (\<lambda>c. c = CHR ''/'') a"
proof (cases "\<forall>x\<in>set a. x = CHR ''/''")
  case True
  then have t: "takeWhile (\<lambda>c. c = CHR ''/'') a = a" by (simp add: takeWhile_eq_all_conv)
  from True have "takeWhile (\<lambda>c. c = CHR ''/'') (a @ b) = a @ takeWhile (\<lambda>c. c = CHR ''/'') b"
    by (intro takeWhile_append2) simp
  also from assms have "\<dots> = a" by simp
  finally show ?thesis by (simp only: t)
next
  case False
  then obtain x where "x \<in> set a" "\<not> x = CHR ''/''" by blast
  then show ?thesis by (rule takeWhile_append1)
qed

lemma takeWhile_sep_not_all:
  assumes "a \<noteq> []" and "last a \<noteq> CHR ''/''"
  shows "takeWhile (\<lambda>c. c = CHR ''/'') (a @ b) = takeWhile (\<lambda>c. c = CHR ''/'') a"
proof -
  from assms(1) have "last a \<in> set a" by simp
  then show ?thesis using assms(2) by (rule takeWhile_append1)
qed

lemma endswith_sep: "endswith a ''/'' \<longleftrightarrow> a \<noteq> [] \<and> last a = CHR ''/''"
proof (cases a rule: rev_cases)
  case Nil
  then show ?thesis by (simp add: endswith_def)
next
  case (snoc ys y)
  then show ?thesis by (simp add: endswith_def)
qed

lemma leading_join:
  assumes "\<not> startswith b ''/''"
  shows "leading (join a b) = leading a"
proof -
  have nb: "takeWhile (\<lambda>c. c = CHR ''/'') b = []"
    using assms by (cases b) (simp_all add: startswith_def)
  show ?thesis
  proof (cases "a = []")
    case True
    with assms nb show ?thesis by (simp add: join_def leading_def)
  next
    case False
    show ?thesis
    proof (cases "endswith a ''/''")
      case True
      with assms have "join a b = a @ b" by (simp add: join_def)
      with nb show ?thesis by (simp add: leading_def takeWhile_sep_append)
    next
      case ne: False
      with False have l: "last a \<noteq> CHR ''/''" by (simp add: endswith_sep)
      from ne False assms have "join a b = a @ (CHR ''/'' # b)" by (simp add: join_def)
      with False l show ?thesis by (simp add: leading_def takeWhile_sep_not_all)
    qed
  qed
qed

lemma anchor_PurePath_join:
  "\<not> startswith b ''/'' \<Longrightarrow> anchor (PurePath (join a b)) = anchor (PurePath a)"
  by (simp add: PurePath_def initial_slashes_leading leading_join)

lemma filter_seg_ok_empty: "filter seg_ok [[]] = []"
  by (simp add: seg_ok_def)

lemma parts_PurePath_join:
  assumes "\<not> startswith b ''/''"
  shows "parts (PurePath (join a b)) = parts (PurePath a) @ parts (PurePath b)"
proof (cases "a = []")
  case True
  with assms have "join a b = b" by (simp add: join_def)
  with True show ?thesis by (simp add: parts_PurePath seg_ok_def)
next
  case False
  show ?thesis
  proof (cases "endswith a ''/''")
    case True
    with False obtain a' where a: "a = a' @ ''/''"
      by (cases a rule: rev_cases) (simp_all add: endswith_sep)
    then have 1: "split_sep a = split_sep a' @ [[]]"
      by (simp add: split_sep_append_sep)
    from a have 2: "split_sep (a @ b) = split_sep a' @ split_sep b"
      by (simp add: split_sep_append_sep)
    from True assms have "join a b = a @ b" by (simp add: join_def)
    with 1 2 show ?thesis by (simp add: parts_PurePath seg_ok_def)
  next
    case ne: False
    with False assms have "join a b = a @ (CHR ''/'' # b)" by (simp add: join_def)
    then show ?thesis by (simp add: parts_PurePath split_sep_append_sep)
  qed
qed



lemma seg_ok_dotdot: "seg_ok ''..''"
  by (simp add: seg_ok_def)

lemma normpath_fold:
  assumes "''..'' \<notin> set xs"
  shows "foldl (normpath_step k) acc xs = acc @ filter seg_ok xs"
  using assms
proof (induction xs arbitrary: acc)
  case Nil
  show ?case by simp
next
  case (Cons x xs)
  then have r: "\<And>acc. foldl (normpath_step k) acc xs = acc @ filter seg_ok xs"
    and x: "x \<noteq> ''..''"
    by auto
  show ?case
  proof (cases "seg_ok x")
    case True
    with x have "normpath_step k acc x = acc @ [x]"
      by (simp add: normpath_step_def seg_ok_def)
    with True r show ?thesis by simp
  next
    case False
    then have "normpath_step k acc x = acc"
      by (auto simp: normpath_step_def seg_ok_def)
    with False r show ?thesis by simp
  qed
qed

lemma split_sep_replicate:
  "split_sep (replicate k (CHR ''/'') @ t) = replicate k [] @ split_sep t"
  by (induction k) simp_all

lemma leading_replicate: "leading (replicate k (CHR ''/'') @ t) = k + leading t"
  by (induction k) (simp_all add: leading_def)

lemma leading_join_sep:
  assumes "\<forall>x\<in>set xs. x \<noteq> [] \<and> CHR ''/'' \<notin> set x"
  shows "leading (join_sep xs) = 0"
proof (cases xs)
  case Nil
  then show ?thesis by (simp add: leading_def)
next
  case (Cons x rest)
  with assms obtain c cs where x: "x = c # cs" and c: "c \<noteq> CHR ''/''"
    by (cases x) auto
  show ?thesis
  proof (cases rest)
    case Nil
    with Cons x c show ?thesis by (simp add: leading_def)
  next
    case (Cons y ys)
    with \<open>xs = x # rest\<close> x c show ?thesis by (simp add: leading_def)
  qed
qed

lemma filter_seg_ok_replicate: "filter seg_ok (replicate k []) = []"
  by (induction k) (simp_all add: seg_ok_def)

lemma initial_slashes_le: "initial_slashes_of s \<le> 2"
  by (simp add: initial_slashes_of_def)

lemma PurePath_empty: "PurePath [] = Path [] []"
  by (simp add: PurePath_def initial_slashes_of_def startswith_def)

lemma PurePath_dot: "PurePath ''.'' = Path [] []"
  by (simp add: PurePath_def initial_slashes_of_def startswith_def)

lemma PurePath_normal_form:
  assumes k: "k \<le> 2" and c: "\<forall>x\<in>set comps. seg_ok x \<and> CHR ''/'' \<notin> set x"
  shows "PurePath (replicate k (CHR ''/'') @ join_sep comps) = Path (replicate k (CHR ''/'')) comps"
proof -
  let ?q = "replicate k (CHR ''/'') @ join_sep comps"
  from c have ne: "\<forall>x\<in>set comps. x \<noteq> [] \<and> CHR ''/'' \<notin> set x"
    by (auto simp: seg_ok_def)
  then have "leading ?q = k" by (simp add: leading_replicate leading_join_sep)
  with k have a: "initial_slashes_of ?q = k"
    by (simp add: initial_slashes_leading)
  have "filter seg_ok (split_sep (join_sep comps)) = comps"
  proof (cases "comps = []")
    case True
    then show ?thesis by (simp add: seg_ok_def)
  next
    case False
    with ne have "split_sep (join_sep comps) = comps" by (simp add: split_sep_join_sep)
    moreover from c have "filter seg_ok comps = comps" by (simp add: filter_id_conv)
    ultimately show ?thesis by simp
  qed
  then have "filter seg_ok (split_sep ?q) = comps"
    by (simp add: split_sep_replicate filter_seg_ok_replicate)
  with a show ?thesis
    by (simp add: PurePath_def seg_ok_def)
qed

lemma PurePath_normpath:
  assumes "''..'' \<notin> set (parts (PurePath s))"
  shows "PurePath (normpath s) = PurePath s"
proof (cases "s = []")
  case True
  then show ?thesis by (simp add: normpath_def PurePath_empty PurePath_dot)
next
  case False
  let ?k = "initial_slashes_of s"
  let ?comps = "filter seg_ok (split_sep s)"
  let ?q = "replicate ?k (CHR ''/'') @ join_sep ?comps"
  from assms have nd: "''..'' \<notin> set (split_sep s)"
    by (simp add: parts_PurePath seg_ok_dotdot)
  then have f: "foldl (normpath_step ?k) [] (split_sep s) = ?comps"
    by (simp add: normpath_fold)
  have c: "\<forall>x\<in>set ?comps. seg_ok x \<and> CHR ''/'' \<notin> set x"
    by (auto dest: split_sep_pieces)
  have q: "PurePath ?q = Path (replicate ?k (CHR ''/'')) ?comps"
    using initial_slashes_le c by (rule PurePath_normal_form)
  have s: "PurePath s = Path (replicate ?k (CHR ''/'')) ?comps"
    by (simp add: PurePath_def seg_ok_def)
  from False f have n: "normpath s = (if ?q = [] then ''.'' else ?q)"
    by (simp add: normpath_def Let_def)
  show ?thesis
  proof (cases "?q = []")
    case True
    have "normpath s = ''.''" unfolding n by (rule if_P) (rule True)
    then have 1: "PurePath (normpath s) = Path [] []" by (simp only: PurePath_dot)
    from q have "PurePath [] = Path (replicate ?k (CHR ''/'')) ?comps" by (simp only: True)
    with s have "PurePath s = PurePath []" by (simp only:)
    then have "PurePath s = Path [] []" by (simp only: PurePath_empty)
    with 1 show ?thesis by (simp only:)
  next
    case False
    have "normpath s = ?q" unfolding n by (rule if_not_P) (rule False)
    then show ?thesis by (simp only: q s)
  qed
qed



lemma basename_no_sep: "CHR ''/'' \<notin> set (basename r)"
proof -
  have "set (takeWhile (\<lambda>c. c \<noteq> CHR ''/'') (rev r)) \<subseteq> {c. c \<noteq> CHR ''/''}"
    by (auto dest: set_takeWhileD)
  then show ?thesis by (auto simp: basename_def)
qed

lemma no_sep_not_startswith: "CHR ''/'' \<notin> set b \<Longrightarrow> \<not> startswith b ''/''"
  by (cases b) (auto simp: startswith_def)

lemma PurePath_no_sep:
  "CHR ''/'' \<notin> set b \<Longrightarrow> PurePath b = Path [] (filter seg_ok [b])"
  by (simp add: PurePath_def split_sep_no_sep initial_slashes_of_def no_sep_not_startswith
        seg_ok_def)

lemma anchor_empty_iff: "anchor (PurePath s) = [] \<longleftrightarrow> \<not> startswith s ''/''"
  by (simp add: PurePath_def initial_slashes_of_def)

lemma PurePath_join:
  assumes "\<not> startswith b ''/''"
  shows "PurePath (join a b) = Path (anchor (PurePath a)) (parts (PurePath a) @ parts (PurePath b))"
proof -
  from assms have a: "anchor (PurePath (join a b)) = anchor (PurePath a)"
    by (rule anchor_PurePath_join)
  from assms have p: "parts (PurePath (join a b)) = parts (PurePath a) @ parts (PurePath b)"
    by (rule parts_PurePath_join)
  show ?thesis by (rule purepath.expand) (simp add: a p)
qed

lemma entry_to_create_dest:
  assumes "entry_to_create remote_path owner grp fm dm e = Inr (Some p)"
  shows "pe_dest p @ (if pe_template p then TEMPLATE_EXTENSION else [])
           = destination_path remote_path e"
proof -
  have t: "take (length d - length x) d @ x = d" if "endswith d x" for d x :: string
  proof -
    from that have "drop (length d - length x) d = x" by (simp add: endswith_def)
    then have "take (length d - length x) d @ x
                 = take (length d - length x) d @ drop (length d - length x) d"
      by simp
    then show ?thesis by simp
  qed
  from assms show ?thesis
    by (auto simp: entry_to_create_def Let_def t split: if_splits option.splits)
qed

text \<open>
  Claim C9. For a local entry the path mapper yields (a file or a directory) whose
  relative path is relative, with no \<^verbatim>\<open>..\<close> component in the destination root, in the
  relative path or as the basename of the root: the destination path, read as a
  \<^verbatim>\<open>PurePath\<close>, is the destination root followed by the components of the relative path
  when the root ends with a separator, and the destination root, then the basename of the
  root, then the components of the relative path when it does not. For a template the
  destination path is this path without the template extension.
\<close>

theorem destination_path_root_semantics:
  assumes "entry_to_create remote_path owner grp fm dm e = Inr (Some p)"
      and "\<not> startswith (le_path e) ''/''"
      and "''..'' \<notin> set (parts (PurePath remote_path))"
      and "''..'' \<notin> set (parts (PurePath (le_path e)))"
      and "basename (le_root e) \<noteq> ''..''"
  shows "PurePath (pe_dest p @ (if pe_template p then TEMPLATE_EXTENSION else []))
           = Path (anchor (PurePath remote_path))
               (parts (PurePath remote_path)
                @ (if endswith (le_root e) ''/'' then []
                   else filter (\<lambda>x. x \<noteq> [] \<and> x \<noteq> ''.'') [basename (le_root e)])
                @ parts (PurePath (le_path e)))"
proof -
  let ?R = "PurePath remote_path"
  let ?b = "basename (le_root e)"
  let ?base = "if endswith (le_root e) ''/'' then [] else filter seg_ok [?b]"
  let ?droot = "if \<not> endswith (le_root e) ''/'' then join remote_path ?b else remote_path"
  let ?nrel = "normpath (le_path e)"
  have nrel: "PurePath ?nrel = PurePath (le_path e)"
    using assms(4) by (rule PurePath_normpath)
  from assms(2) have "anchor (PurePath (le_path e)) = []" by (simp add: anchor_empty_iff)
  with nrel have "anchor (PurePath ?nrel) = []" by simp
  then have ns: "\<not> startswith ?nrel ''/''" by (simp add: anchor_empty_iff)
  have droot: "PurePath ?droot = Path (anchor ?R) (parts ?R @ ?base)"
  proof (cases "endswith (le_root e) ''/''")
    case True
    then show ?thesis by simp
  next
    case False
    have "PurePath (join remote_path ?b) = Path (anchor ?R) (parts ?R @ parts (PurePath ?b))"
      using basename_no_sep by (intro PurePath_join no_sep_not_startswith)
    with False show ?thesis by (simp add: PurePath_no_sep basename_no_sep)
  qed
  have "PurePath (join ?droot ?nrel)
          = Path (anchor (PurePath ?droot)) (parts (PurePath ?droot) @ parts (PurePath ?nrel))"
    using ns by (rule PurePath_join)
  then have j: "PurePath (join ?droot ?nrel)
          = Path (anchor ?R) (parts ?R @ ?base @ parts (PurePath (le_path e)))"
    by (simp only: droot nrel purepath.sel append_assoc)
  from assms(5) have "''..'' \<notin> set ?base" by (simp add: seg_ok_def)
  with assms(3,4) have "''..'' \<notin> set (parts (PurePath (join ?droot ?nrel)))"
    by (simp only: j purepath.sel set_append Un_iff) simp
  then have "PurePath (normpath (join ?droot ?nrel)) = PurePath (join ?droot ?nrel)"
    by (rule PurePath_normpath)
  then have "PurePath (destination_path remote_path e)
          = Path (anchor ?R) (parts ?R @ ?base @ parts (PurePath (le_path e)))"
    by (simp only: destination_path_def Let_def j)
  then show ?thesis
    by (simp only: entry_to_create_dest [OF assms(1)] seg_ok_def)
qed


theorem destination_path_root_semantics_witness:
  "entry_to_create ''/opt/app'' ANone ANone ANone ANone entry_slash_root
     = Inr (Some ((sample_file ''/opt/app/config.yml'' ''files/app/config.yml'')
                   \<lparr>pe_content := None\<rparr>))
   \<and> PurePath ''/opt/app/config.yml'' = Path ''/'' [''opt'', ''app'', ''config.yml'']
   \<and> entry_to_create ''/opt/app'' ANone ANone ANone ANone entry_bare_root
     = Inr (Some ((sample_file ''/opt/app/app/conf/config.yml'' ''files/app/conf/config.yml.j2'')
                   \<lparr>pe_content := None, pe_template := True\<rparr>))
   \<and> PurePath (''/opt/app/app/conf/config.yml'' @ TEMPLATE_EXTENSION)
       = Path ''/'' [''opt'', ''app'', ''app'', ''conf'', ''config.yml.j2'']"
proof -
  let ?p1 = "(sample_file ''/opt/app/config.yml'' ''files/app/config.yml'')\<lparr>pe_content := None\<rparr>"
  let ?p2 = "(sample_file ''/opt/app/app/conf/config.yml'' ''files/app/conf/config.yml.j2'')
               \<lparr>pe_content := None, pe_template := True\<rparr>"
  have a1: "entry_to_create ''/opt/app'' ANone ANone ANone ANone entry_slash_root = Inr (Some ?p1)"
    by code_simp
  have a2: "\<not> startswith (le_path entry_slash_root) ''/''" by code_simp
  have a3: "''..'' \<notin> set (parts (PurePath ''/opt/app''))" by code_simp
  have a4: "''..'' \<notin> set (parts (PurePath (le_path entry_slash_root)))" by code_simp
  have a5: "basename (le_root entry_slash_root) \<noteq> ''..''" by code_simp
  have b1: "entry_to_create ''/opt/app'' ANone ANone ANone ANone entry_bare_root = Inr (Some ?p2)"
    by code_simp
  have b2: "\<not> startswith (le_path entry_bare_root) ''/''" by code_simp
  have b4: "''..'' \<notin> set (parts (PurePath (le_path entry_bare_root)))" by code_simp
  have b5: "basename (le_root entry_bare_root) \<noteq> ''..''" by code_simp
  have r1: "Path (anchor (PurePath ''/opt/app''))
               (parts (PurePath ''/opt/app'')
                @ (if endswith (le_root entry_slash_root) ''/'' then []
                   else filter (\<lambda>x. x \<noteq> [] \<and> x \<noteq> ''.'') [basename (le_root entry_slash_root)])
                @ parts (PurePath (le_path entry_slash_root)))
            = Path ''/'' [''opt'', ''app'', ''config.yml'']"
    by code_simp
  have r2: "Path (anchor (PurePath ''/opt/app''))
               (parts (PurePath ''/opt/app'')
                @ (if endswith (le_root entry_bare_root) ''/'' then []
                   else filter (\<lambda>x. x \<noteq> [] \<and> x \<noteq> ''.'') [basename (le_root entry_bare_root)])
                @ parts (PurePath (le_path entry_bare_root)))
            = Path ''/'' [''opt'', ''app'', ''app'', ''conf'', ''config.yml.j2'']"
    by code_simp
  have d1: "pe_dest ?p1 @ (if pe_template ?p1 then TEMPLATE_EXTENSION else [])
              = ''/opt/app/config.yml''"
    by (simp add: sample_file_def)
  have d2: "pe_dest ?p2 @ (if pe_template ?p2 then TEMPLATE_EXTENSION else [])
              = ''/opt/app/app/conf/config.yml'' @ TEMPLATE_EXTENSION"
    by (simp add: sample_file_def)
  from destination_path_root_semantics [OF a1 a2 a3 a4 a5]
  have c1: "PurePath ''/opt/app/config.yml'' = Path ''/'' [''opt'', ''app'', ''config.yml'']"
    unfolding r1 d1 .
  from destination_path_root_semantics [OF b1 b2 a3 b4 b5]
  have c2: "PurePath (''/opt/app/app/conf/config.yml'' @ TEMPLATE_EXTENSION)
              = Path ''/'' [''opt'', ''app'', ''app'', ''conf'', ''config.yml.j2'']"
    unfolding r2 d2 .
  from a1 b1 c1 c2 show ?thesis by (simp only:) 
qed


subsection \<open>The source tree merger with two directory roots\<close>

text \<open>
  Whatever the filetree lookup returns: with two roots that are not regular files, the
  merger emits the result of the lookup on both roots once after each root's own
  directory entry.
\<close>

lemma two_directory_roots_entries:
  assumes "\<not> is_regular_file E (path_dwim_relative E r1)"
      and "\<not> is_regular_file E (path_dwim_relative E r2)"
  shows "get_local_entries E [r1, r2]
           = root_entry r1 # filetree E [r1, r2] @ root_entry r2 # filetree E [r1, r2]"
  using assms by (simp add: get_local_entries_def root_entry_def Let_def)

text \<open>
  Claim C1 at the roots \<^verbatim>\<open>a/\<close> and \<^verbatim>\<open>b/\<close>. The plan of the run holds every destination path
  twice: each directory root adds its own directory entry, which maps to the destination
  root, and the result of the filetree lookup on both roots.
\<close>

theorem two_directory_roots_duplicate_destinations:
  "(case run_plan two_roots_env two_roots_args of
      Inl out \<Rightarrow> []
    | Inr (to_delete, to_create) \<Rightarrow> map pe_dest to_create)
     = [''/opt/app'', ''/opt/app/shared.txt'', ''/opt/app/only.txt'',
        ''/opt/app'', ''/opt/app/shared.txt'', ''/opt/app/only.txt'']
   \<and> \<not> distinct
        (case run_plan two_roots_env two_roots_args of
           Inl out \<Rightarrow> []
         | Inr (to_delete, to_create) \<Rightarrow> map pe_dest to_create)"
  by code_simp

text \<open>
  Claim C8 at the roots \<^verbatim>\<open>a/\<close> and \<^verbatim>\<open>b/\<close>. The merger emits \<^verbatim>\<open>only.txt\<close>, found below
  \<^verbatim>\<open>b/\<close>, in the iteration for \<^verbatim>\<open>a/\<close>, before the directory entry of \<^verbatim>\<open>b/\<close>.
\<close>

theorem two_directory_roots_child_before_root_entry:
  "get_local_entries two_roots_env [''a/'', ''b/'']
     = [root_entry ''a/'', shared_a, only_b, root_entry ''b/'', shared_a, only_b]"
  by code_simp
end
